theory Spec2Isabelle
  imports Main "HOL-Library.Word"
begin

section \<open>JavaScript values\<close>

text \<open>
  A JavaScript string is a sequence of UTF-16 code units.  String literals of the source
  are ASCII and are written as HOL strings, converted by \<open>lit\<close>.
\<close>

type_synonym jsstring = "16 word list"

definition lit :: "string \<Rightarrow> jsstring" where
  "lit s = map of_char s"

text \<open>
  The values a cell or a property can hold.  Numbers are restricted to the integers that
  a double holds exactly and \<open>String\<close> prints as plain decimal digits (magnitude below
  \<open>2^53\<close>: type codes, flags, counts); fractions, NaN and the infinities are outside the
  model.  Property names are the ASCII identifiers of the source.  A plain object is its
  list of own properties.
\<close>

datatype jsval =
    JUndefined
  | JNull
  | JBool bool
  | JNum int
  | JStr jsstring
  | JObj "(string \<times> jsval) list"

type_synonym jsobj = "(string \<times> jsval) list"

datatype js_error = TypeError

text \<open>\<open>if (v)\<close>, \<open>!v\<close>, \<open>a || b\<close>: the falsy values are undefined, null, false, 0 and ''.\<close>

fun truthy :: "jsval \<Rightarrow> bool" where
  "truthy JUndefined = False"
| "truthy JNull = False"
| "truthy (JBool b) = b"
| "truthy (JNum n) = (n \<noteq> 0)"
| "truthy (JStr s) = (s \<noteq> [])"
| "truthy (JObj kvs) = True"

definition js_or :: "jsval \<Rightarrow> jsval \<Rightarrow> jsval" where
  "js_or a b = (if truthy a then a else b)"

text \<open>\<open>obj[key]\<close> on an object: the value of the property, undefined when it has none.\<close>

definition get_prop :: "jsobj \<Rightarrow> string \<Rightarrow> jsval" where
  "get_prop obj k = (case map_of obj k of None \<Rightarrow> JUndefined | Some v \<Rightarrow> v)"

text \<open>
  \<open>v.key\<close> on a value that is neither null nor undefined.  A primitive has none of the
  properties the source reads (type, name, rocNo, ...).  Every such read of the source is
  guarded: by \<open>if (record.transferor)\<close>, by \<open>?.\<close> or by the test in getNestedValue.
\<close>

fun member :: "jsval \<Rightarrow> string \<Rightarrow> jsval" where
  "member (JObj kvs) k = get_prop kvs k"
| "member v k = JUndefined"

text \<open>\<open>v?.key\<close>\<close>

definition opt_member :: "jsval \<Rightarrow> string \<Rightarrow> jsval" where
  "opt_member v k = (if v = JUndefined \<or> v = JNull then JUndefined else member v k)"

subsection \<open>Numbers and values as text\<close>

definition digit_char :: "nat \<Rightarrow> 16 word" where
  "digit_char d = of_nat (48 + d)"

function decimal :: "nat \<Rightarrow> jsstring" where
  "decimal n = (if n < 10 then [digit_char n] else decimal (n div 10) @ [digit_char (n mod 10)])"
  by pat_completeness auto
termination
  by (relation "measure id") auto

declare decimal.simps [simp del]

text \<open>\<open>String(v)\<close> and \<open>${v}\<close> in a template literal.\<close>

fun to_string :: "jsval \<Rightarrow> jsstring" where
  "to_string JUndefined = lit ''undefined''"
| "to_string JNull = lit ''null''"
| "to_string (JBool b) = (if b then lit ''true'' else lit ''false'')"
| "to_string (JNum n) = (if n < 0 then lit ''-'' @ decimal (nat (- n)) else decimal (nat n))"
| "to_string (JStr s) = s"
| "to_string (JObj kvs) = lit ''[object Object]''"

subsection \<open>Whitespace and trim\<close>

text \<open>The WhiteSpace and LineTerminator code units that \<open>trim\<close> and \<open>parseFloat\<close> strip.\<close>

definition is_js_whitespace :: "16 word \<Rightarrow> bool" where
  "is_js_whitespace u \<longleftrightarrow>
     u = 0x09 \<or> u = 0x0A \<or> u = 0x0B \<or> u = 0x0C \<or> u = 0x0D \<or> u = 0x20 \<or> u = 0xA0 \<or>
     u = 0x1680 \<or> (0x2000 \<le> u \<and> u \<le> 0x200A) \<or> u = 0x2028 \<or> u = 0x2029 \<or>
     u = 0x202F \<or> u = 0x205F \<or> u = 0x3000 \<or> u = 0xFEFF"

definition js_trim :: "jsstring \<Rightarrow> jsstring" where
  "js_trim s = rev (dropWhile is_js_whitespace (rev (dropWhile is_js_whitespace s)))"

subsection \<open>The byte size of a string: \<open>new Blob([s]).size\<close>\<close>

text \<open>
  A Blob built from a string holds its UTF-8 encoding.  The string is first read as a
  sequence of code points: a high surrogate followed by a low surrogate is one
  supplementary code point, any other surrogate is replaced by U+FFFD.
\<close>

definition is_high_surrogate :: "16 word \<Rightarrow> bool" where
  "is_high_surrogate u \<longleftrightarrow> 0xD800 \<le> u \<and> u \<le> 0xDBFF"

definition is_low_surrogate :: "16 word \<Rightarrow> bool" where
  "is_low_surrogate u \<longleftrightarrow> 0xDC00 \<le> u \<and> u \<le> 0xDFFF"

definition scalar_of_unit :: "16 word \<Rightarrow> nat" where
  "scalar_of_unit u = (if is_high_surrogate u \<or> is_low_surrogate u then 0xFFFD else unat u)"

fun code_points :: "jsstring \<Rightarrow> nat list" where
  "code_points [] = []"
| "code_points [u] = [scalar_of_unit u]"
| "code_points (u # v # rest) =
     (if is_high_surrogate u \<and> is_low_surrogate v
      then (0x10000 + (unat u - 0xD800) * 0x400 + (unat v - 0xDC00)) # code_points rest
      else scalar_of_unit u # code_points (v # rest))"

definition utf8_bytes :: "nat \<Rightarrow> 8 word list" where
  "utf8_bytes cp =
     (if cp < 0x80 then [of_nat cp]
      else if cp < 0x800 then [of_nat (0xC0 + cp div 0x40), of_nat (0x80 + cp mod 0x40)]
      else if cp < 0x10000 then
        [of_nat (0xE0 + cp div 0x1000), of_nat (0x80 + cp div 0x40 mod 0x40),
         of_nat (0x80 + cp mod 0x40)]
      else
        [of_nat (0xF0 + cp div 0x40000), of_nat (0x80 + cp div 0x1000 mod 0x40),
         of_nat (0x80 + cp div 0x40 mod 0x40), of_nat (0x80 + cp mod 0x40)])"

definition utf8_encode :: "jsstring \<Rightarrow> 8 word list" where
  "utf8_encode s = concat (map utf8_bytes (code_points s))"

definition blob_size :: "jsstring \<Rightarrow> nat" where
  "blob_size s = length (utf8_encode s)"

section \<open>XML generator\<close>

subsection \<open>escapeXml\<close>

text \<open>\<open>s.replace(/c/g, rep)\<close> for a pattern of one character.\<close>

definition replace_all :: "16 word \<Rightarrow> jsstring \<Rightarrow> jsstring \<Rightarrow> jsstring" where
  "replace_all c rep s = concat (map (\<lambda>x. if x = c then rep else [x]) s)"

definition escapeXml :: "jsval \<Rightarrow> jsstring" where
  "escapeXml str =
     (if str = JNull \<or> str = JUndefined then []
      else replace_all 0x27 (lit ''&apos;'')
            (replace_all 0x22 (lit ''&quot;'')
              (replace_all 0x3E (lit ''&gt;'')
                (replace_all 0x3C (lit ''&lt;'')
                  (replace_all 0x26 (lit ''&amp;'') (to_string str))))))"

text \<open>
  The reference decoder of the round-trip property: XML's five predefined entity
  references are replaced, left to right in one pass, by the characters they stand for;
  every other character is kept.
\<close>

function unescapeXml :: "jsstring \<Rightarrow> jsstring" where
  "unescapeXml [] = []"
| "unescapeXml (c # cs) =
     (if c = 0x26 \<and> take 4 cs = lit ''amp;'' then 0x26 # unescapeXml (drop 4 cs)
      else if c = 0x26 \<and> take 3 cs = lit ''lt;'' then 0x3C # unescapeXml (drop 3 cs)
      else if c = 0x26 \<and> take 3 cs = lit ''gt;'' then 0x3E # unescapeXml (drop 3 cs)
      else if c = 0x26 \<and> take 5 cs = lit ''quot;'' then 0x22 # unescapeXml (drop 5 cs)
      else if c = 0x26 \<and> take 5 cs = lit ''apos;'' then 0x27 # unescapeXml (drop 5 cs)
      else c # unescapeXml cs)"
  by pat_completeness auto
termination
  by (relation "measure length") auto

subsection \<open>Constants\<close>

definition MAX_BATCH_SIZE :: nat where
  "MAX_BATCH_SIZE = 29 * 1024 * 1024"

definition XML_HEADER :: jsstring where
  \<open>XML_HEADER = lit ''<?xml version="1.0" encoding="UTF-8"?>\<newline><bulkstamping>\<newline>    <applicationType>43</applicationType>''\<close>

definition XML_FOOTER :: jsstring where
  "XML_FOOTER = lit ''\<newline></bulkstamping>''"

subsection \<open>generateInstrumentXml\<close>

text \<open>
  The attachment resolver handed to the generator: it returns a value or throws.  The
  application's own resolver (\<open>startGeneration\<close>) reads the in-memory attachment map and
  returns the stored base64 text, or '' for an unknown filename.
\<close>

type_synonym resolver = "jsstring \<Rightarrow> js_error + jsval"

record attachment =
  data :: jsval
  file_size :: nat

type_synonym attachment_store = "jsstring \<rightharpoonup> attachment"

definition getAttachmentBase64 :: "attachment_store \<Rightarrow> resolver" where
  "getAttachmentBase64 attachmentFiles fname =
     Inr (case attachmentFiles fname of Some a \<Rightarrow> data a | None \<Rightarrow> JStr [])"

text \<open>
  Lines 651-660: the attachment's name and base64 text.  The call of the resolver, with
  the \<open>trim\<close> of its argument, is inside the \<open>try\<close>: a name that is not a string (no
  \<open>trim\<close> method) and a resolver that throws both leave the text empty.
\<close>

definition attachmentOf :: "jsobj \<Rightarrow> resolver \<Rightarrow> jsval \<times> jsval" where
  "attachmentOf record getBase64 =
     (let attachmentName = js_or (get_prop record ''attachment'') (JStr []) in
      (attachmentName,
       if truthy attachmentName then
         (case attachmentName of
            JStr n \<Rightarrow>
              (case getBase64 (js_trim n) of
                 Inr r \<Rightarrow> js_or r (JStr [])
               | Inl e \<Rightarrow> JStr [])
          | _ \<Rightarrow> JStr [])
       else JStr []))"

text \<open>One line of the template: indentation, \<open><tag>\<close>, the escaped value, \<open></tag>\<close>, newline.\<close>

definition element :: "nat \<Rightarrow> string \<Rightarrow> jsval \<Rightarrow> jsstring" where
  "element indent tag v =
     lit (replicate indent CHR '' '') @ lit ''<'' @ lit tag @ lit ''>'' @ escapeXml v @
     lit ''</'' @ lit tag @ lit ''>'' @ lit ''\<newline>''"

definition INSTRUMENT_FIELDS_HEAD :: "string list" where
  "INSTRUMENT_FIELDS_HEAD =
     [''refNo'', ''instrumentDate'', ''instrumentDateReceive'', ''principal'', ''subsidiary'',
      ''typeOfInstrument'', ''typeOfInstrumentOthers'']"

definition PARTY_FIELDS :: "string list" where
  "PARTY_FIELDS =
     [''type'', ''name'', ''nationality'', ''icNo'', ''pasportNo'', ''pasportCountry'', ''rocNo'',
      ''busType'', ''incomeTaxNo'', ''incomeTaxBranch'', ''street1'', ''street2'', ''street3'',
      ''postcode'', ''city'', ''state'', ''country'', ''telNo'', ''email'']"

definition INSTRUMENT_FIELDS_TAIL :: "string list" where
  "INSTRUMENT_FIELDS_TAIL =
     [''consideration'', ''duration'', ''durationDesc'', ''colLand'', ''colLandDesc'', ''colShare'',
      ''colDeposit'', ''colOthers'', ''colOthersDesc'', ''noOfCopy'', ''exemption'',
      ''exemptionOthers'', ''remession'', ''remessionOthers'']"

text \<open>\<open><tag>${escapeXml(record.tag || '')}</tag>\<close> for the fields of the record itself.\<close>

definition fieldElements :: "jsobj \<Rightarrow> string list \<Rightarrow> jsstring" where
  "fieldElements record tags =
     concat (map (\<lambda>tag. element 8 tag (js_or (get_prop record tag) (JStr []))) tags)"

text \<open>
  The \<open><transferor>\<close> and \<open><transferee>\<close> blocks:
  \<open><tag>${escapeXml(record.transferor?.tag || '')}</tag>\<close> for each party field.
\<close>

definition partyElement :: "jsobj \<Rightarrow> string \<Rightarrow> jsstring" where
  "partyElement record party =
     lit (replicate 8 CHR '' '') @ lit ''<'' @ lit party @ lit ''>'' @ lit ''\<newline>'' @
     concat (map (\<lambda>tag. element 12 tag
                    (js_or (opt_member (get_prop record party) tag) (JStr []))) PARTY_FIELDS) @
     lit (replicate 8 CHR '' '') @ lit ''</'' @ lit party @ lit ''>'' @ lit ''\<newline>''"

text \<open>Lines 662-728: the template literal, given the attachment's name and text.\<close>

definition instrumentTemplate :: "jsobj \<Rightarrow> jsval \<Rightarrow> jsval \<Rightarrow> jsstring" where
  \<open>instrumentTemplate record attachmentName attachmentBase64 =
     lit ''\<newline>    <instrument>\<newline>'' @
     fieldElements record INSTRUMENT_FIELDS_HEAD @
     partyElement record ''transferor'' @
     partyElement record ''transferee'' @
     fieldElements record INSTRUMENT_FIELDS_TAIL @
     lit ''        <attachment name="'' @ escapeXml attachmentName @ lit ''">'' @
     to_string attachmentBase64 @
     lit ''</attachment>\<newline>    </instrument>''\<close>

definition generateInstrumentXml :: "jsobj \<Rightarrow> resolver \<Rightarrow> jsstring" where
  "generateInstrumentXml record getBase64 =
     (case attachmentOf record getBase64 of
        (attachmentName, attachmentBase64) \<Rightarrow>
          instrumentTemplate record attachmentName attachmentBase64)"

subsection \<open>Batches\<close>

text \<open>The running batch (\<open>currentBatch\<close>) and a finalized batch.\<close>

record running_batch =
  instruments :: "jsstring list"
  running_size :: nat
  running_count :: nat

record output_batch =
  filename :: jsstring
  content :: jsstring
  byte_size :: nat
  recordCount :: nat

definition emptyBatch :: running_batch where
  "emptyBatch =
     \<lparr>instruments = [], running_size = length XML_HEADER + length XML_FOOTER, running_count = 0\<rparr>"

definition finalizeBatch :: "running_batch \<Rightarrow> nat \<Rightarrow> output_batch" where
  "finalizeBatch batch batchNumber =
     (let content = XML_HEADER @ concat (instruments batch) @ XML_FOOTER in
      \<lparr>filename = (if batchNumber = 1 then lit ''Output.xml''
                   else lit ''Output_Batch_'' @ decimal batchNumber @ lit ''.xml''),
       content = content,
       byte_size = blob_size content,
       recordCount = running_count batch\<rparr>)"

text \<open>
  The body of the \<open>for\<close> loop of generateXml, on the pair of the finalized batches and the
  running batch.  The progress callback only observes the loop and is left out, and so is
  the parameter \<open>attachmentFiles\<close>, which the function does not read.
\<close>

definition generateXml_step ::
  "resolver \<Rightarrow> output_batch list \<times> running_batch \<Rightarrow> jsobj \<Rightarrow> output_batch list \<times> running_batch"
where
  "generateXml_step getBase64 st record =
     (case st of (batches, currentBatch) \<Rightarrow>
        (let instrumentXml = generateInstrumentXml record getBase64;
             instrumentSize = blob_size instrumentXml;
             (batches', currentBatch') =
               (if running_size currentBatch + instrumentSize > MAX_BATCH_SIZE
                     \<and> length (instruments currentBatch) > 0
                then (batches @ [finalizeBatch currentBatch (length batches + 1)], emptyBatch)
                else (batches, currentBatch))
         in (batches',
             \<lparr>instruments = instruments currentBatch' @ [instrumentXml],
              running_size = running_size currentBatch' + instrumentSize,
              running_count = running_count currentBatch' + 1\<rparr>)))"

fun generateXml_loop ::
  "resolver \<Rightarrow> jsobj list \<Rightarrow> output_batch list \<times> running_batch \<Rightarrow> output_batch list \<times> running_batch"
where
  "generateXml_loop getBase64 [] st = st"
| "generateXml_loop getBase64 (record # rest) st =
     generateXml_loop getBase64 rest (generateXml_step getBase64 st record)"

definition generateXml :: "jsobj list \<Rightarrow> resolver \<Rightarrow> output_batch list" where
  "generateXml mappedData getBase64 =
     (case generateXml_loop getBase64 mappedData ([], emptyBatch) of
        (batches, currentBatch) \<Rightarrow>
          (if length (instruments currentBatch) > 0
           then batches @ [finalizeBatch currentBatch (length batches + 1)]
           else batches))"

section \<open>Validator\<close>

datatype error_type =
  MISSING_FIELD | INVALID_DATE | INVALID_NUMBER | MISSING_FILE | MISSING_ATTACHMENT | MISSING_ID

record issue =
  rowNumber :: jsval
  fieldName :: string
  errorType :: error_type
  message :: jsstring

record report =
  valid :: bool
  validCount :: nat
  errorCount :: nat
  warningCount :: nat
  errors :: "issue list"
  warnings :: "issue list"

subsection \<open>Helpers shared by the two variants of the validator module\<close>

text \<open>\<open>path.split('.')\<close>\<close>

fun split_on :: "char \<Rightarrow> string \<Rightarrow> string list" where
  "split_on c [] = [[]]"
| "split_on c (x # xs) =
     (if x = c then [] # split_on c xs
      else (case split_on c xs of
              p # ps \<Rightarrow> (x # p) # ps
            | [] \<Rightarrow> [[x]]))"

fun getNestedValue_walk :: "jsval \<Rightarrow> string list \<Rightarrow> jsval" where
  "getNestedValue_walk current [] = current"
| "getNestedValue_walk current (part # parts) =
     (if current = JUndefined \<or> current = JNull then JUndefined
      else getNestedValue_walk (member current part) parts)"

definition getNestedValue :: "jsobj \<Rightarrow> string \<Rightarrow> jsval" where
  "getNestedValue obj path = getNestedValue_walk (JObj obj) (split_on CHR ''.'' path)"

definition is_digit :: "16 word \<Rightarrow> bool" where
  "is_digit u \<longleftrightarrow> 0x30 \<le> u \<and> u \<le> 0x39"

text \<open>
  \<open>DATE_REGEX = /^\d{2}\/\d{2}\/\d{4}$/\<close> has no flags: it matches the whole string only,
  and \<open>\d\<close> is an ASCII digit.  \<open>DATE_REGEX.test(v)\<close> matches against \<open>String(v)\<close>.
\<close>

definition date_regex_matches :: "jsstring \<Rightarrow> bool" where
  "date_regex_matches s \<longleftrightarrow>
     length s = 10 \<and>
     is_digit (s ! 0) \<and> is_digit (s ! 1) \<and> s ! 2 = 0x2F \<and>
     is_digit (s ! 3) \<and> is_digit (s ! 4) \<and> s ! 5 = 0x2F \<and>
     is_digit (s ! 6) \<and> is_digit (s ! 7) \<and> is_digit (s ! 8) \<and> is_digit (s ! 9)"

definition DATE_REGEX_test :: "jsval \<Rightarrow> bool" where
  "DATE_REGEX_test v = date_regex_matches (to_string v)"

text \<open>
  \<open>isNaN(parseFloat(v))\<close>: parseFloat skips leading whitespace of \<open>String(v)\<close> and reads the
  longest prefix that is a decimal literal.  The result is NaN exactly when no prefix is
  one: after an optional sign there is neither \<open>Infinity\<close>, nor a digit, nor a dot followed
  by a digit.
\<close>

definition strip_sign :: "jsstring \<Rightarrow> jsstring" where
  "strip_sign s = (case s of [] \<Rightarrow> [] | c # cs \<Rightarrow> if c = 0x2B \<or> c = 0x2D then cs else s)"

definition starts_decimal_literal :: "jsstring \<Rightarrow> bool" where
  "starts_decimal_literal s \<longleftrightarrow>
     take 8 s = lit ''Infinity'' \<or>
     (case s of
        [] \<Rightarrow> False
      | c # cs \<Rightarrow> is_digit c \<or> (c = 0x2E \<and> (case cs of [] \<Rightarrow> False | d # ds \<Rightarrow> is_digit d)))"

definition parseFloat_isNaN :: "jsval \<Rightarrow> bool" where
  "parseFloat_isNaN v \<longleftrightarrow>
     \<not> starts_decimal_literal (strip_sign (dropWhile is_js_whitespace (to_string v)))"

text \<open>\<open>displayNames[fieldPath] || fieldPath\<close>, for the table of each variant.\<close>

definition displayName :: "(string \<times> string) list \<Rightarrow> string \<Rightarrow> jsstring" where
  "displayName displayNames fieldPath =
     (case map_of displayNames fieldPath of
        Some n \<Rightarrow> if n = [] then lit fieldPath else lit n
      | None \<Rightarrow> lit fieldPath)"

text \<open>The check of mandatory fields (first loop of the body).\<close>

definition mandatoryErrors ::
  "string list \<Rightarrow> (string \<times> string) list \<Rightarrow> jsval \<Rightarrow> jsobj \<Rightarrow> issue list"
where
  "mandatoryErrors mandatory displayNames rowNo record =
     concat (map (\<lambda>fieldPath.
       (let v = getNestedValue record fieldPath in
        if v = JUndefined \<or> v = JNull \<or> v = JStr [] then
          [\<lparr>rowNumber = rowNo, fieldName = fieldPath, errorType = MISSING_FIELD,
            message = lit ''Missing required field: '' @ displayName displayNames fieldPath\<rparr>]
        else [])) mandatory)"

definition dateFields :: "string list" where
  "dateFields = [''instrumentDate'', ''instrumentDateReceive'']"

definition dateErrors :: "(string \<times> string) list \<Rightarrow> jsval \<Rightarrow> jsobj \<Rightarrow> issue list" where
  "dateErrors displayNames rowNo record =
     concat (map (\<lambda>field.
       (let v = get_prop record field in
        if truthy v \<and> \<not> DATE_REGEX_test v then
          [\<lparr>rowNumber = rowNo, fieldName = field, errorType = INVALID_DATE,
            message = lit ''Invalid date format for '' @ displayName displayNames field @
                      lit ''. Expected DD/MM/YYYY, got: '' @ to_string v\<rparr>]
        else [])) dateFields)"

definition numericFields :: "string list" where
  "numericFields = [''principal'', ''subsidiary'', ''typeOfInstrument'', ''consideration'', ''noOfCopy'']"

definition numericWarnings :: "(string \<times> string) list \<Rightarrow> jsval \<Rightarrow> jsobj \<Rightarrow> issue list" where
  "numericWarnings displayNames rowNo record =
     concat (map (\<lambda>field.
       (let v = get_prop record field in
        if v \<noteq> JUndefined \<and> v \<noteq> JStr [] \<and> parseFloat_isNaN v then
          [\<lparr>rowNumber = rowNo, fieldName = field, errorType = INVALID_NUMBER,
            message = lit ''Non-numeric value for '' @ displayName displayNames field @
                      lit '': '' @ to_string v\<rparr>]
        else [])) numericFields)"

text \<open>
  \<open>attachmentFiles && attachmentFiles.has(filename)\<close>, as a truth value: the attachment
  map may be missing (null or undefined).
\<close>

definition attachmentFiles_has :: "attachment_store option \<Rightarrow> jsstring \<Rightarrow> bool" where
  "attachmentFiles_has attachmentFiles fname =
     (case attachmentFiles of None \<Rightarrow> False | Some files \<Rightarrow> files fname \<noteq> None)"

text \<open>
  The attachment check: the errors and the warnings it adds.  \<open>record.attachment.trim()\<close>
  throws a TypeError when the attachment is truthy and not a string.
\<close>

definition attachmentCheck ::
  "jsval \<Rightarrow> attachment_store option \<Rightarrow> jsobj \<Rightarrow> js_error + (issue list \<times> issue list)"
where
  "attachmentCheck rowNo attachmentFiles record =
     (let a = get_prop record ''attachment'' in
      if truthy a then
        (case a of
           JStr s \<Rightarrow>
             (let fname = js_trim s;
                  exists = attachmentFiles_has attachmentFiles fname
              in if \<not> exists then
                   Inr ([\<lparr>rowNumber = rowNo, fieldName = ''attachment'', errorType = MISSING_FILE,
                          message = lit ''Attachment file not uploaded: '' @ fname\<rparr>], [])
                 else Inr ([], []))
         | _ \<Rightarrow> Inl TypeError)
      else
        Inr ([], [\<lparr>rowNumber = rowNo, fieldName = ''attachment'', errorType = MISSING_ATTACHMENT,
                   message = lit ''No attachment specified for this record''\<rparr>]))"

text \<open>The loop over the records and the returned report, the same in both variants.\<close>

fun validateAll_loop ::
  "(jsobj \<Rightarrow> js_error + (issue list \<times> issue list)) \<Rightarrow> jsobj list \<Rightarrow>
   issue list \<times> issue list \<times> nat \<Rightarrow> js_error + (issue list \<times> issue list \<times> nat)"
where
  "validateAll_loop body [] acc = Inr acc"
| "validateAll_loop body (record # rest) (errs, warns, count) =
     (case body record of
        Inl e \<Rightarrow> Inl e
      | Inr (rowErrors, rowWarnings) \<Rightarrow>
          validateAll_loop body rest
            (errs @ rowErrors, warns @ rowWarnings,
             if length rowErrors = 0 then count + 1 else count))"

definition validateAll_report ::
  "(jsobj \<Rightarrow> js_error + (issue list \<times> issue list)) \<Rightarrow> jsobj list \<Rightarrow> js_error + report"
where
  "validateAll_report body mappedData =
     (case validateAll_loop body mappedData ([], [], 0) of
        Inl e \<Rightarrow> Inl e
      | Inr (errs, warns, count) \<Rightarrow>
          Inr \<lparr>valid = (length errs = 0), validCount = count, errorCount = length errs,
               warningCount = length warns, errors = errs, warnings = warns\<rparr>)"

subsection \<open>The first variant of the module (missing identity fields are errors)\<close>

definition MANDATORY_FIELDS_strict :: "string list" where
  "MANDATORY_FIELDS_strict =
     [''refNo'', ''instrumentDate'', ''principal'', ''typeOfInstrumentOthers'',
      ''transferor.type'', ''transferor.name'',
      ''transferor.street1'', ''transferor.street2'', ''transferor.postcode'',
      ''transferor.city'', ''transferor.state'', ''transferor.country'', ''transferor.telNo'',
      ''transferee.type'', ''transferee.name'',
      ''transferee.street1'', ''transferee.street2'', ''transferee.postcode'',
      ''transferee.city'', ''transferee.state'', ''transferee.country'', ''transferee.telNo'']"

definition displayNames_strict :: "(string \<times> string) list" where
  "displayNames_strict =
     [(''refNo'', ''Reference Number''),
      (''instrumentDate'', ''Date Signed''),
      (''instrumentDateReceive'', ''Date Received''),
      (''principal'', ''Principal/Subsidiary''),
      (''typeOfInstrumentOthers'', ''Agreement Name''),
      (''typeOfInstrument'', ''Instrument Type''),
      (''transferor.type'', ''Transferor Type''),
      (''transferor.name'', ''Transferor Name''),
      (''transferor.icNo'', ''Transferor IC''),
      (''transferor.rocNo'', ''Transferor ROC''),
      (''transferor.busType'', ''Transferor Business Type''),
      (''transferor.nationality'', ''Transferor Nationality''),
      (''transferor.passportNo'', ''Transferor Passport''),
      (''transferor.passportCountry'', ''Transferor Passport Country''),
      (''transferor.street1'', ''Transferor Address Line 1''),
      (''transferor.street2'', ''Transferor Address Line 2''),
      (''transferor.postcode'', ''Transferor Postcode''),
      (''transferor.city'', ''Transferor City''),
      (''transferor.state'', ''Transferor State''),
      (''transferor.country'', ''Transferor Country''),
      (''transferor.telNo'', ''Transferor Phone''),
      (''transferee.type'', ''Transferee Type''),
      (''transferee.name'', ''Transferee Name''),
      (''transferee.icNo'', ''Transferee IC''),
      (''transferee.rocNo'', ''Transferee ROC''),
      (''transferee.busType'', ''Transferee Business Type''),
      (''transferee.nationality'', ''Transferee Nationality''),
      (''transferee.passportNo'', ''Transferee Passport''),
      (''transferee.passportCountry'', ''Transferee Passport Country''),
      (''transferee.street1'', ''Transferee Address Line 1''),
      (''transferee.street2'', ''Transferee Address Line 2''),
      (''transferee.postcode'', ''Transferee Postcode''),
      (''transferee.city'', ''Transferee City''),
      (''transferee.state'', ''Transferee State''),
      (''transferee.country'', ''Transferee Country''),
      (''transferee.telNo'', ''Transferee Phone''),
      (''consideration'', ''Consideration Amount''),
      (''noOfCopy'', ''Number of Copies''),
      (''attachment'', ''Attachment'')]"

text \<open>
  The blocks "Validate transferor based on type" and "Validate transferee based on type"
  differ in the name of the party only.
\<close>

definition partyErrors_strict :: "jsval \<Rightarrow> jsobj \<Rightarrow> string \<Rightarrow> issue list" where
  "partyErrors_strict rowNo record party =
     (let p = get_prop record party in
      if truthy p then
        (let type = member p ''type'' in
         if type = JStr (lit ''1'') \<or> type = JNum 1 then
           (if \<not> truthy (member p ''rocNo'') then
              [\<lparr>rowNumber = rowNo, fieldName = party @ ''.rocNo'', errorType = MISSING_FIELD,
                message = lit ''Company '' @ lit party @ lit '' requires ROC Number''\<rparr>]
            else []) @
           (if \<not> truthy (member p ''busType'') then
              [\<lparr>rowNumber = rowNo, fieldName = party @ ''.busType'', errorType = MISSING_FIELD,
                message = lit ''Company '' @ lit party @
                          lit '' requires Business Type (1=Local, 2=Foreign)''\<rparr>]
            else [])
         else if type = JStr (lit ''0'') \<or> type = JNum 0 then
           (let hasIC = member p ''icNo'';
                hasPassport = member p ''passportNo''
            in if \<not> truthy hasIC \<and> \<not> truthy hasPassport then
                 [\<lparr>rowNumber = rowNo, fieldName = party @ ''.icNo'', errorType = MISSING_FIELD,
                   message = lit ''Individual '' @ lit party @
                             lit '' requires IC Number (citizen) or Passport (non-citizen)''\<rparr>]
               else if truthy hasIC then
                 (if \<not> truthy (member p ''nationality'') then
                    [\<lparr>rowNumber = rowNo, fieldName = party @ ''.nationality'',
                      errorType = MISSING_FIELD,
                      message = lit ''Citizen '' @ lit party @
                                lit '' requires Nationality (set to 1)''\<rparr>]
                  else [])
               else if truthy hasPassport then
                 (if \<not> truthy (member p ''passportCountry'') then
                    [\<lparr>rowNumber = rowNo, fieldName = party @ ''.passportCountry'',
                      errorType = MISSING_FIELD,
                      message = lit ''Non-citizen '' @ lit party @
                                lit '' requires Passport Country Code''\<rparr>]
                  else [])
               else [])
         else [])
      else [])"

text \<open>The body of the loop: the errors and the warnings of one record.\<close>

definition validateRecord_strict ::
  "attachment_store option \<Rightarrow> jsobj \<Rightarrow> js_error + (issue list \<times> issue list)"
where
  "validateRecord_strict attachmentFiles record =
     (let rowNo = get_prop record ''_rowNumber'' in
      case attachmentCheck rowNo attachmentFiles record of
        Inl e \<Rightarrow> Inl e
      | Inr (fileErrors, fileWarnings) \<Rightarrow>
          Inr (mandatoryErrors MANDATORY_FIELDS_strict displayNames_strict rowNo record @
               dateErrors displayNames_strict rowNo record @
               fileErrors @
               partyErrors_strict rowNo record ''transferor'' @
               partyErrors_strict rowNo record ''transferee'',
               numericWarnings displayNames_strict rowNo record @ fileWarnings))"

definition validateAll_strict :: "jsobj list \<Rightarrow> attachment_store option \<Rightarrow> js_error + report" where
  "validateAll_strict mappedData attachmentFiles =
     validateAll_report (validateRecord_strict attachmentFiles) mappedData"

subsection \<open>The second variant of the module (missing identity fields are warnings)\<close>

definition MANDATORY_FIELDS_lenient :: "string list" where
  "MANDATORY_FIELDS_lenient =
     [''refNo'', ''instrumentDate'', ''instrumentDateReceive'', ''principal'', ''typeOfInstrument'',
      ''transferor.type'', ''transferor.name'', ''transferee.type'', ''transferee.name'',
      ''consideration'', ''noOfCopy'']"

definition displayNames_lenient :: "(string \<times> string) list" where
  "displayNames_lenient =
     [(''refNo'', ''Reference Number''),
      (''instrumentDate'', ''Date Signed''),
      (''instrumentDateReceive'', ''Date Received''),
      (''principal'', ''Principal''),
      (''typeOfInstrument'', ''Instrument Type''),
      (''transferor.type'', ''Transferor Type''),
      (''transferor.name'', ''Transferor Name''),
      (''transferor.icNo'', ''Transferor IC''),
      (''transferor.rocNo'', ''Transferor ROC''),
      (''transferee.type'', ''Transferee Type''),
      (''transferee.name'', ''Transferee Name''),
      (''transferee.icNo'', ''Transferee IC''),
      (''transferee.rocNo'', ''Transferee ROC''),
      (''consideration'', ''Consideration Amount''),
      (''noOfCopy'', ''Number of Copies''),
      (''attachment'', ''Attachment'')]"

definition partyWarnings_lenient :: "jsval \<Rightarrow> jsobj \<Rightarrow> string \<Rightarrow> issue list" where
  "partyWarnings_lenient rowNo record party =
     (let p = get_prop record party in
      if truthy p then
        (let type = member p ''type'' in
         if type = JStr (lit ''0'') \<or> type = JNum 0 then
           (if \<not> truthy (member p ''icNo'') \<and> \<not> truthy (member p ''pasportNo'') then
              [\<lparr>rowNumber = rowNo, fieldName = party @ ''.icNo'', errorType = MISSING_ID,
                message = lit ''Individual '' @ lit party @
                          lit '' should have IC or Passport number''\<rparr>]
            else [])
         else if type = JStr (lit ''1'') \<or> type = JNum 1 then
           (if \<not> truthy (member p ''rocNo'') then
              [\<lparr>rowNumber = rowNo, fieldName = party @ ''.rocNo'', errorType = MISSING_ID,
                message = lit ''Company '' @ lit party @ lit '' should have ROC number''\<rparr>]
            else [])
         else [])
      else [])"

definition validateRecord_lenient ::
  "attachment_store option \<Rightarrow> jsobj \<Rightarrow> js_error + (issue list \<times> issue list)"
where
  "validateRecord_lenient attachmentFiles record =
     (let rowNo = get_prop record ''_rowNumber'' in
      case attachmentCheck rowNo attachmentFiles record of
        Inl e \<Rightarrow> Inl e
      | Inr (fileErrors, fileWarnings) \<Rightarrow>
          Inr (mandatoryErrors MANDATORY_FIELDS_lenient displayNames_lenient rowNo record @
               dateErrors displayNames_lenient rowNo record @
               fileErrors,
               numericWarnings displayNames_lenient rowNo record @ fileWarnings @
               partyWarnings_lenient rowNo record ''transferor'' @
               partyWarnings_lenient rowNo record ''transferee''))"

definition validateAll_lenient :: "jsobj list \<Rightarrow> attachment_store option \<Rightarrow> js_error + report" where
  "validateAll_lenient mappedData attachmentFiles =
     validateAll_report (validateRecord_lenient attachmentFiles) mappedData"

section \<open>Notions used to state and prove the properties\<close>

text \<open>What escapeXml does to one code unit.\<close>

definition escape_unit :: "16 word \<Rightarrow> jsstring" where
  "escape_unit c =
     (if c = 0x26 then lit ''&amp;'' else if c = 0x3C then lit ''&lt;''
      else if c = 0x3E then lit ''&gt;'' else if c = 0x22 then lit ''&quot;''
      else if c = 0x27 then lit ''&apos;'' else [c])"

text \<open>The running batch that holds exactly the records of a group.\<close>

definition runningOf :: "resolver \<Rightarrow> jsobj list \<Rightarrow> running_batch" where
  "runningOf getBase64 grp =
     \<lparr>instruments = map (\<lambda>r. generateInstrumentXml r getBase64) grp,
      running_size = length XML_HEADER + length XML_FOOTER +
                     sum_list (map (\<lambda>r. blob_size (generateInstrumentXml r getBase64)) grp),
      running_count = length grp\<rparr>"

text \<open>The batches finalized from a list of groups, numbered from 1 in this order.\<close>

definition batchesOf :: "resolver \<Rightarrow> jsobj list list \<Rightarrow> output_batch list" where
  "batchesOf getBase64 groups =
     map (\<lambda>(k, grp). finalizeBatch (runningOf getBase64 grp) (Suc k)) (enumerate 0 groups)"

text \<open>A string that does not begin with a low surrogate: nothing before it can pair with it.\<close>

definition clean_start :: "jsstring \<Rightarrow> bool" where
  "clean_start s = (case s of [] \<Rightarrow> True | u # _ \<Rightarrow> \<not> is_low_surrogate u)"

text \<open>A group of more than one record stays within the maximum batch size.\<close>

definition size_ok :: "resolver \<Rightarrow> jsobj list \<Rightarrow> bool" where
  "size_ok g grp \<longleftrightarrow> (1 < length grp \<longrightarrow> running_size (runningOf g grp) \<le> MAX_BATCH_SIZE)"

text \<open>An issue list has an issue of a type for a field under a row number.\<close>

definition has_issue :: "issue list \<Rightarrow> jsval \<Rightarrow> string \<Rightarrow> error_type \<Rightarrow> bool" where
  "has_issue issues rowNo field ty \<longleftrightarrow>
     (\<exists>i \<in> set issues. rowNumber i = rowNo \<and> fieldName i = field \<and> errorType i = ty)"

text \<open>The number of issues of a type for a field.\<close>

definition count_issues :: "issue list \<Rightarrow> string \<Rightarrow> error_type \<Rightarrow> nat" where
  "count_issues issues field ty =
     length (filter (\<lambda>i. fieldName i = field \<and> errorType i = ty) issues)"

text \<open>
  The attachment of a record is a string or falsy: \<open>record.attachment.trim()\<close> does not throw.
  The parser reads every cell as text, so the records it maps are of this kind.
\<close>

definition attachment_is_text :: "jsobj \<Rightarrow> bool" where
  "attachment_is_text record =
     (case get_prop record ''attachment'' of JStr s \<Rightarrow> True | v \<Rightarrow> \<not> truthy v)"

text \<open>The errors and the warnings of one record (empty when the body throws).\<close>

definition row_errors :: "(jsobj \<Rightarrow> js_error + (issue list \<times> issue list)) \<Rightarrow> jsobj \<Rightarrow> issue list" where
  "row_errors body record = (case body record of Inr (es, ws) \<Rightarrow> es | Inl e \<Rightarrow> [])"

definition row_warnings :: "(jsobj \<Rightarrow> js_error + (issue list \<times> issue list)) \<Rightarrow> jsobj \<Rightarrow> issue list" where
  "row_warnings body record = (case body record of Inr (es, ws) \<Rightarrow> ws | Inl e \<Rightarrow> [])"

text \<open>
  The values of a date field that get an INVALID_DATE issue: a non-empty string that does
  not match the pattern, and every truthy value that is not a string (its text never
  matches).  Absent and empty values are not among them.
\<close>

definition invalid_date_value :: "jsval \<Rightarrow> bool" where
  "invalid_date_value v =
     (case v of
        JStr s \<Rightarrow> s \<noteq> [] \<and> \<not> date_regex_matches s
      | JUndefined \<Rightarrow> False
      | JNull \<Rightarrow> False
      | JBool b \<Rightarrow> b
      | JNum n \<Rightarrow> n \<noteq> 0
      | JObj kvs \<Rightarrow> True)"

text \<open>
  A row as the parser maps it, with the example values of the Excel template: complete for
  the second variant of the validator, without an attachment and without registration
  number of the company.
\<close>

definition example_record :: jsobj where
  "example_record =
     [(''_rowNumber'', JNum 2),
      (''refNo'', JStr (lit ''REF001'')),
      (''instrumentDate'', JStr (lit ''15/12/2024'')),
      (''instrumentDateReceive'', JStr (lit ''16/12/2024'')),
      (''principal'', JStr (lit ''-1'')),
      (''typeOfInstrument'', JStr (lit ''1'')),
      (''transferor'', JObj [(''type'', JStr (lit ''0'')), (''name'', JStr (lit ''ALI BIN ABU'')),
                             (''icNo'', JStr (lit ''800101145566''))]),
      (''transferee'', JObj [(''type'', JStr (lit ''1'')), (''name'', JStr (lit ''SITI SDN BHD''))]),
      (''consideration'', JStr (lit ''50000'')),
      (''noOfCopy'', JStr (lit ''1''))]"

section \<open>Properties of escapeXml\<close>

lemma replace_all_concat_map:
  "replace_all c rep (concat (map f s)) = concat (map (\<lambda>x. replace_all c rep (f x)) s)"
  by (induction s) (simp_all add: replace_all_def)

lemma replace_all_as_concat:
  "replace_all c rep s = concat (map (\<lambda>x. if x = c then rep else [x]) s)"
  by (simp add: replace_all_def)

text \<open>
  The later replacements leave the entity written by an earlier one alone: no replacement
  text contains one of the characters replaced after it.
\<close>

lemma escape_chain_unit:
  "replace_all 0x27 (lit ''&apos;'') (replace_all 0x22 (lit ''&quot;'')
     (replace_all 0x3E (lit ''&gt;'') (replace_all 0x3C (lit ''&lt;'')
        (if x = 0x26 then lit ''&amp;'' else [x])))) = escape_unit x"
  by (simp add: replace_all_def escape_unit_def lit_def)

lemma escapeXml_string: "escapeXml (JStr s) = concat (map escape_unit s)"
proof -
  have "escapeXml (JStr s) =
     replace_all 0x27 (lit ''&apos;'') (replace_all 0x22 (lit ''&quot;'')
       (replace_all 0x3E (lit ''&gt;'') (replace_all 0x3C (lit ''&lt;'')
         (concat (map (\<lambda>x. if x = 0x26 then lit ''&amp;'' else [x]) s)))))"
    by (simp add: escapeXml_def replace_all_as_concat [of "0x26"])
  also have "\<dots> = concat (map escape_unit s)"
    by (simp only: replace_all_concat_map escape_chain_unit)
  finally show ?thesis .
qed

lemma unescapeXml_escape_unit: "unescapeXml (escape_unit c @ rest) = c # unescapeXml rest"
  by (simp add: escape_unit_def lit_def)

lemma unescapeXml_escaped: "unescapeXml (concat (map escape_unit s)) = s"
  by (induction s) (simp_all add: unescapeXml_escape_unit)

text \<open>
  C7.  On every string escapeXml replaces each of the five reserved characters
  \<open>&\<close>, \<open><\<close>, \<open>>\<close>, the double quote and the apostrophe by its entity reference (\<open>&amp;\<close>,
  \<open>&lt;\<close>, \<open>&gt;\<close>, \<open>&quot;\<close>, \<open>&apos;\<close>) and keeps every other code unit; the decoding of
  the five predefined entities then gives the string back; escapeXml of null and of
  undefined is the empty string (so neither the text "null" nor the text "undefined").
\<close>

theorem escapeXml_roundtrip:
  "escapeXml (JStr s) =
     concat (map (\<lambda>c. if c = 0x26 then lit ''&amp;''
                      else if c = 0x3C then lit ''&lt;''
                      else if c = 0x3E then lit ''&gt;''
                      else if c = 0x22 then lit ''&quot;''
                      else if c = 0x27 then lit ''&apos;''
                      else [c]) s) \<and>
   unescapeXml (escapeXml (JStr s)) = s \<and>
   escapeXml JNull = [] \<and> escapeXml JUndefined = []"
proof -
  have "escape_unit =
      (\<lambda>c. if c = 0x26 then lit ''&amp;''
           else if c = 0x3C then lit ''&lt;''
           else if c = 0x3E then lit ''&gt;''
           else if c = 0x22 then lit ''&quot;''
           else if c = 0x27 then lit ''&apos;''
           else [c])"
    by (rule ext) (simp add: escape_unit_def)
  then have "escapeXml (JStr s) =
     concat (map (\<lambda>c. if c = 0x26 then lit ''&amp;''
                      else if c = 0x3C then lit ''&lt;''
                      else if c = 0x3E then lit ''&gt;''
                      else if c = 0x22 then lit ''&quot;''
                      else if c = 0x27 then lit ''&apos;''
                      else [c]) s)"
    using escapeXml_string [of s] by simp
  moreover have "unescapeXml (escapeXml (JStr s)) = s"
    by (simp add: escapeXml_string unescapeXml_escaped)
  moreover have "escapeXml JNull = []" "escapeXml JUndefined = []"
    by (simp_all add: escapeXml_def)
  ultimately show ?thesis by blast
qed

theorem escapeXml_roundtrip_witness:
  \<open>escapeXml (JStr (lit ''<a href="x">R&D</a>'' @ [0x27])) =
     lit ''&lt;a href=&quot;x&quot;&gt;R&amp;D&lt;/a&gt;&apos;'' \<and>
   unescapeXml (lit ''&lt;a href=&quot;x&quot;&gt;R&amp;D&lt;/a&gt;&apos;'') =
     lit ''<a href="x">R&D</a>'' @ [0x27]\<close>
proof -
  from escapeXml_roundtrip [of \<open>lit ''<a href="x">R&D</a>'' @ [0x27]\<close>]
  have e: \<open>escapeXml (JStr (lit ''<a href="x">R&D</a>'' @ [0x27])) =
     lit ''&lt;a href=&quot;x&quot;&gt;R&amp;D&lt;/a&gt;&apos;''\<close>
    by (simp add: lit_def)
  from escapeXml_roundtrip [of \<open>lit ''<a href="x">R&D</a>'' @ [0x27]\<close>]
  have \<open>unescapeXml (escapeXml (JStr (lit ''<a href="x">R&D</a>'' @ [0x27]))) =
     lit ''<a href="x">R&D</a>'' @ [0x27]\<close>
    by blast
  with e show ?thesis by simp
qed

section \<open>Properties of the batch serializer\<close>

subsection \<open>Byte sizes\<close>

lemma code_points_append:
  "clean_start ys \<Longrightarrow> code_points (xs @ ys) = code_points xs @ code_points ys"
proof (induction xs rule: code_points.induct)
  case 1
  then show ?case by simp
next
  case (2 u)
  then show ?case
    by (cases ys) (simp_all add: clean_start_def)
next
  case (3 u v rest)
  then show ?case by simp
qed

lemma blob_size_append:
  "clean_start ys \<Longrightarrow> blob_size (xs @ ys) = blob_size xs + blob_size ys"
  by (simp add: blob_size_def utf8_encode_def code_points_append)

lemma ascii_not_surrogate:
  "u < 0x80 \<Longrightarrow> \<not> is_high_surrogate u \<and> \<not> is_low_surrogate u"
  by (simp add: is_high_surrogate_def is_low_surrogate_def word_less_nat_alt word_le_nat_alt)

lemma code_points_ascii:
  "\<forall>u \<in> set s. u < 0x80 \<Longrightarrow> code_points s = map unat s"
proof (induction s rule: code_points.induct)
  case 1
  then show ?case by simp
next
  case (2 u)
  then show ?case
    by (simp add: scalar_of_unit_def ascii_not_surrogate)
next
  case (3 u v rest)
  then show ?case
    by (simp add: scalar_of_unit_def ascii_not_surrogate)
qed

lemma blob_size_ascii:
  assumes "\<forall>u \<in> set s. u < 0x80"
  shows "blob_size s = length s"
proof -
  have "\<forall>u \<in> set s. unat u < 0x80"
    using assms by (auto simp: word_less_nat_alt)
  then have "length (concat (map utf8_bytes (map unat s))) = length s"
    by (induction s) (simp_all add: utf8_bytes_def)
  then show ?thesis
    by (simp add: blob_size_def utf8_encode_def code_points_ascii [OF assms])
qed

lemma blob_size_XML_HEADER: "blob_size XML_HEADER = length XML_HEADER"
  by (rule blob_size_ascii) (simp add: XML_HEADER_def lit_def)

lemma blob_size_XML_FOOTER: "blob_size XML_FOOTER = length XML_FOOTER"
  by (rule blob_size_ascii) (simp add: XML_FOOTER_def lit_def)

lemma generateInstrumentXml_starts: "\<exists>t. generateInstrumentXml r g = 0x0A # t"
  by (simp add: generateInstrumentXml_def instrumentTemplate_def lit_def split: prod.split)

lemma XML_FOOTER_starts: "\<exists>t. XML_FOOTER = 0x0A # t"
  by (simp add: XML_FOOTER_def lit_def)

lemma clean_start_newline: "clean_start (0x0A # t)"
  by (simp add: clean_start_def is_low_surrogate_def)

lemma blob_size_fragments:
  assumes "\<forall>f \<in> set frags. \<exists>t. f = 0x0A # t"
  shows "blob_size (concat frags @ 0x0A # ft) = sum_list (map blob_size frags) + blob_size (0x0A # ft)
         \<and> (\<exists>t. concat frags @ 0x0A # ft = 0x0A # t)"
  using assms
proof (induction frags)
  case Nil
  then show ?case by simp
next
  case (Cons f fs)
  then obtain t where t: "concat fs @ 0x0A # ft = 0x0A # t" by auto
  from Cons.prems obtain t' where f: "f = 0x0A # t'" by auto
  have "blob_size (f @ (concat fs @ 0x0A # ft)) = blob_size f + blob_size (concat fs @ 0x0A # ft)"
    by (rule blob_size_append) (simp add: t clean_start_newline)
  with Cons f show ?case by simp
qed

lemma blob_size_content:
  "blob_size (XML_HEADER @ concat (map (\<lambda>r. generateInstrumentXml r g) grp) @ XML_FOOTER) =
   length XML_HEADER + length XML_FOOTER + sum_list (map (\<lambda>r. blob_size (generateInstrumentXml r g)) grp)"
proof -
  obtain ft where ft: "XML_FOOTER = 0x0A # ft" using XML_FOOTER_starts by blast
  let ?frags = "map (\<lambda>r. generateInstrumentXml r g) grp"
  have fr: "\<forall>f \<in> set ?frags. \<exists>t. f = 0x0A # t"
    using generateInstrumentXml_starts by auto
  from blob_size_fragments [OF fr, of ft]
  have a: "blob_size (concat ?frags @ XML_FOOTER) = sum_list (map blob_size ?frags) + blob_size XML_FOOTER"
    and b: "\<exists>t. concat ?frags @ XML_FOOTER = 0x0A # t"
    by (simp_all add: ft)
  from b have "clean_start (concat ?frags @ XML_FOOTER)"
    by (auto simp: clean_start_newline)
  then have "blob_size (XML_HEADER @ concat ?frags @ XML_FOOTER) =
     blob_size XML_HEADER + blob_size (concat ?frags @ XML_FOOTER)"
    by (rule blob_size_append)
  with a show ?thesis
    by (simp add: blob_size_XML_HEADER blob_size_XML_FOOTER comp_def)
qed

lemma byte_size_finalize_runningOf:
  "byte_size (finalizeBatch (runningOf g grp) k) = running_size (runningOf g grp)"
  by (simp add: finalizeBatch_def runningOf_def blob_size_content Let_def)

lemma batchesOf_snoc:
  "batchesOf g (groups @ [grp]) =
   batchesOf g groups @ [finalizeBatch (runningOf g grp) (length groups + 1)]"
  by (simp add: batchesOf_def enumerate_append_eq)

lemma length_batchesOf: "length (batchesOf g groups) = length groups"
  by (simp add: batchesOf_def)

lemma batchesOf_nth:
  "k < length groups \<Longrightarrow> batchesOf g groups ! k = finalizeBatch (runningOf g (groups ! k)) (Suc k)"
  by (simp add: batchesOf_def nth_enumerate_eq)

lemma emptyBatch_runningOf: "emptyBatch = runningOf g []"
  by (simp add: emptyBatch_def runningOf_def)

lemma runningOf_snoc:
  "\<lparr>instruments = instruments (runningOf g cur) @ [generateInstrumentXml r g],
    running_size = running_size (runningOf g cur) + blob_size (generateInstrumentXml r g),
    running_count = running_count (runningOf g cur) + 1\<rparr> = runningOf g (cur @ [r])"
  by (simp add: runningOf_def)

lemma generateXml_step_groups:
  assumes st: "st = (batchesOf g groups, runningOf g cur)"
    and first: "cur = [] \<longrightarrow> groups = []"
    and nonempty: "[] \<notin> set groups"
    and ok: "\<forall>grp \<in> set (cur # groups). size_ok g grp"
  shows "\<exists>groups' cur'.
           concat groups' @ cur' = concat groups @ cur @ [r] \<and>
           generateXml_step g st r = (batchesOf g groups', runningOf g cur') \<and>
           cur' \<noteq> [] \<and> [] \<notin> set groups' \<and>
           (\<forall>grp \<in> set (cur' # groups'). size_ok g grp)"
proof (cases "running_size (runningOf g cur) + blob_size (generateInstrumentXml r g) > MAX_BATCH_SIZE
               \<and> cur \<noteq> []")
  case True
  have "generateXml_step g st r = (batchesOf g (groups @ [cur]), runningOf g [r])"
    using True
    by (simp add: generateXml_step_def st Let_def batchesOf_snoc length_batchesOf
        emptyBatch_runningOf [of g] runningOf_snoc)
      (simp add: runningOf_def)
  moreover have "\<forall>grp \<in> set ([r] # groups @ [cur]). size_ok g grp"
    using ok by (auto simp: size_ok_def)
  ultimately show ?thesis
    using True nonempty
    by (intro exI [of _ "groups @ [cur]"] exI [of _ "[r]"]) auto
next
  case False
  have "generateXml_step g st r = (batchesOf g groups, runningOf g (cur @ [r]))"
    using False
    by (simp add: generateXml_step_def st Let_def runningOf_snoc)
      (simp add: runningOf_def)
  moreover have "size_ok g (cur @ [r])"
    using False by (cases "cur = []") (auto simp: size_ok_def runningOf_def)
  ultimately show ?thesis
    using nonempty ok
    by (intro exI [of _ groups] exI [of _ "cur @ [r]"]) simp
qed

lemma generateXml_loop_groups:
  assumes "st = (batchesOf g groups, runningOf g cur)"
    and "cur = [] \<longrightarrow> groups = []"
    and "[] \<notin> set groups"
    and "\<forall>grp \<in> set (cur # groups). size_ok g grp"
  shows "\<exists>groups' cur'.
           concat groups' @ cur' = concat groups @ cur @ recs \<and>
           generateXml_loop g recs st = (batchesOf g groups', runningOf g cur') \<and>
           (cur' = [] \<longrightarrow> groups' = []) \<and> [] \<notin> set groups' \<and>
           (\<forall>grp \<in> set (cur' # groups'). size_ok g grp)"
  using assms
proof (induction recs arbitrary: st groups cur)
  case Nil
  then show ?case
    by (intro exI [of _ groups] exI [of _ cur]) simp
next
  case (Cons r recs)
  from generateXml_step_groups [OF Cons.prems, of r]
  obtain groups1 cur1 where
    c: "concat groups1 @ cur1 = concat groups @ cur @ [r]"
    and s: "generateXml_step g st r = (batchesOf g groups1, runningOf g cur1)"
    and n: "cur1 \<noteq> []" "[] \<notin> set groups1"
    and o: "\<forall>grp \<in> set (cur1 # groups1). size_ok g grp"
    by blast
  from n have f: "cur1 = [] \<longrightarrow> groups1 = []" by simp
  from Cons.IH [OF s f n(2) o]
  obtain groups' cur' where
    "concat groups' @ cur' = concat groups1 @ cur1 @ recs"
    "generateXml_loop g recs (generateXml_step g st r) = (batchesOf g groups', runningOf g cur')"
    "cur' = [] \<longrightarrow> groups' = []" "[] \<notin> set groups'"
    "\<forall>grp \<in> set (cur' # groups'). size_ok g grp"
    by blast
  with c show ?case
    by (intro exI [of _ groups'] exI [of _ cur']) (simp add: append_assoc [symmetric] del: append_assoc)
qed

text \<open>The batches of generateXml are the batches of a split of the input into groups.\<close>

lemma generateXml_groups:
  "\<exists>groups. concat groups = mappedData \<and> [] \<notin> set groups \<and>
            generateXml mappedData g = batchesOf g groups \<and>
            (\<forall>grp \<in> set groups. size_ok g grp)"
proof -
  have init: "([], emptyBatch) = (batchesOf g [], runningOf g [])"
    by (simp add: batchesOf_def emptyBatch_runningOf [of g])
  from generateXml_loop_groups [OF init, of mappedData]
  obtain groups cur where
    c: "concat groups @ cur = mappedData"
    and l: "generateXml_loop g mappedData ([], emptyBatch) = (batchesOf g groups, runningOf g cur)"
    and f: "cur = [] \<longrightarrow> groups = []" and n: "[] \<notin> set groups"
    and o: "\<forall>grp \<in> set (cur # groups). size_ok g grp"
    by (auto simp: size_ok_def)
  have i: "instruments (runningOf g cur) = [] \<longleftrightarrow> cur = []"
    by (simp add: runningOf_def)
  show ?thesis
  proof (cases "cur = []")
    case True
    with c l f n o i show ?thesis
      by (intro exI [of _ "[]"]) (simp add: generateXml_def)
  next
    case False
    with c l n o i show ?thesis
      by (intro exI [of _ "groups @ [cur]"])
        (simp add: generateXml_def batchesOf_snoc length_batchesOf)
  qed
qed

lemma length_lit [simp]: "length (lit s) = length s"
  by (simp add: lit_def)

lemma escapeXml_empty [simp]: "escapeXml (JStr []) = []"
  by (simp add: escapeXml_def replace_all_def)

lemma length_element:
  "length (element n tag v) = n + 2 * length tag + length (escapeXml v) + 6"
  by (simp add: element_def)

lemma attachmentOf_none [simp]: "attachmentOf [] g = (JStr [], JStr [])"
  by (simp add: attachmentOf_def get_prop_def js_or_def Let_def)

lemma length_empty_fragment: "length (generateInstrumentXml [] g) = 2185"
  by (simp add: generateInstrumentXml_def instrumentTemplate_def
      fieldElements_def partyElement_def length_element INSTRUMENT_FIELDS_HEAD_def PARTY_FIELDS_def
      INSTRUMENT_FIELDS_TAIL_def js_or_def get_prop_def opt_member_def)

lemma length_utf8_bytes: "1 \<le> length (utf8_bytes cp) \<and> length (utf8_bytes cp) \<le> 4"
  by (simp add: utf8_bytes_def)

lemma length_utf8_bytes_scalar: "length (utf8_bytes (scalar_of_unit u)) \<le> 3"
proof -
  have "unat u < 0x10000" using unsigned_less [of u, where 'a = nat] by simp
  then have "scalar_of_unit u < 0x10000" by (simp add: scalar_of_unit_def)
  then show ?thesis by (simp add: utf8_bytes_def)
qed

lemma blob_size_bounds: "length s \<le> blob_size s \<and> blob_size s \<le> 3 * length s"
proof (induction s rule: code_points.induct)
  case 1
  then show ?case by (simp add: blob_size_def utf8_encode_def)
next
  case (2 u)
  then show ?case
    using length_utf8_bytes [of "scalar_of_unit u"] length_utf8_bytes_scalar [of u]
    by (simp add: blob_size_def utf8_encode_def)
next
  case (3 u v rest)
  show ?case
  proof (cases "is_high_surrogate u \<and> is_low_surrogate v")
    case True
    with 3 show ?thesis
      by (simp add: blob_size_def utf8_encode_def utf8_bytes_def)
  next
    case False
    with 3 show ?thesis
      using length_utf8_bytes [of "scalar_of_unit u"] length_utf8_bytes_scalar [of u]
      by (auto simp: blob_size_def utf8_encode_def)
  qed
qed

lemma generateXml_loop_fits:
  "running_size (runningOf g (cur @ recs)) \<le> MAX_BATCH_SIZE \<Longrightarrow>
   generateXml_loop g recs (batches, runningOf g cur) = (batches, runningOf g (cur @ recs))"
proof (induction recs arbitrary: cur)
  case Nil
  then show ?case by simp
next
  case (Cons r recs)
  then have "running_size (runningOf g cur) + blob_size (generateInstrumentXml r g) \<le> MAX_BATCH_SIZE"
    by (simp add: runningOf_def)
  then have "generateXml_step g (batches, runningOf g cur) r = (batches, runningOf g (cur @ [r]))"
    by (simp add: generateXml_step_def Let_def) (simp add: runningOf_def)
  with Cons.IH [of "cur @ [r]"] Cons.prems show ?case by simp
qed

text \<open>Records that fit together are one batch, \<open>Output.xml\<close>.\<close>

lemma generateXml_single_batch:
  assumes "recs \<noteq> []" and "running_size (runningOf g recs) \<le> MAX_BATCH_SIZE"
  shows "generateXml recs g = [finalizeBatch (runningOf g recs) 1]"
  using assms generateXml_loop_fits [of g "[]" recs "[]"]
  by (simp add: generateXml_def emptyBatch_runningOf [of g]) (simp add: runningOf_def)

text \<open>Two records that do not fit together are two batches.\<close>

lemma generateXml_two_batches:
  assumes "MAX_BATCH_SIZE < running_size (runningOf g [r1]) + blob_size (generateInstrumentXml r2 g)"
  shows "generateXml [r1, r2] g =
           [finalizeBatch (runningOf g [r1]) 1, finalizeBatch (runningOf g [r2]) 2]"
proof -
  have 1: "generateXml_step g ([], emptyBatch) r1 = ([], runningOf g [r1])"
    by (simp add: generateXml_step_def Let_def emptyBatch_def runningOf_def)
  have 2: "generateXml_step g ([], runningOf g [r1]) r2 =
             ([finalizeBatch (runningOf g [r1]) 1], runningOf g [r2])"
    using assms
    by (simp add: generateXml_step_def Let_def)
      (simp add: emptyBatch_def runningOf_def)
  show ?thesis
    by (simp add: generateXml_def 1 2 numeral_2_eq_2) (simp add: runningOf_def)
qed

lemma length_fragment_payload:
  "length (to_string b64) \<le> length (instrumentTemplate r n b64)"
  by (simp add: instrumentTemplate_def)

lemma length_envelope: "length XML_HEADER = 95" "length XML_FOOTER = 16"
  by (simp_all add: XML_HEADER_def XML_FOOTER_def)

subsection \<open>Main properties of generateXml\<close>

text \<open>
  C2.  The record counts of the emitted batches add up to the number of input records,
  and the batches are the input cut into consecutive non-empty groups: the k-th batch
  counts the records of the k-th group and its content is the envelope around their
  fragments, in input order.  No record is reordered, duplicated or dropped.
\<close>

theorem generateXml_preserves_records:
  "sum_list (map recordCount (generateXml mappedData g)) = length mappedData \<and>
   (\<exists>groups. concat groups = mappedData \<and> [] \<notin> set groups \<and>
      map recordCount (generateXml mappedData g) = map length groups \<and>
      map content (generateXml mappedData g) =
        map (\<lambda>grp. XML_HEADER @ concat (map (\<lambda>r. generateInstrumentXml r g) grp) @ XML_FOOTER)
          groups)"
proof -
  obtain groups where c: "concat groups = mappedData" and n: "[] \<notin> set groups"
    and b: "generateXml mappedData g = batchesOf g groups"
    using generateXml_groups by blast
  have rc: "map recordCount (batchesOf g groups) = map length groups"
    by (rule nth_equalityI)
      (simp_all add: length_batchesOf batchesOf_nth finalizeBatch_def runningOf_def Let_def)
  have ct: "map content (batchesOf g groups) =
      map (\<lambda>grp. XML_HEADER @ concat (map (\<lambda>r. generateInstrumentXml r g) grp) @ XML_FOOTER) groups"
    by (rule nth_equalityI)
      (simp_all add: length_batchesOf batchesOf_nth finalizeBatch_def runningOf_def Let_def)
  have "sum_list (map length groups) = length (concat groups)"
    by (simp add: length_concat)
  with c n b rc ct show ?thesis
    by (intro conjI exI [of _ groups]) simp_all
qed

text \<open>
  C8.  The first finalized batch is named \<open>Output.xml\<close>; the batch at 1-based position
  \<open>k + 1 \<ge> 2\<close> is named \<open>Output_Batch_\<close>, the decimal numeral of \<open>k + 1\<close>, \<open>.xml\<close>.
\<close>

theorem generateXml_filenames:
  "k < length (generateXml mappedData g) \<Longrightarrow>
   filename (generateXml mappedData g ! k) =
     (if k = 0 then lit ''Output.xml''
      else lit ''Output_Batch_'' @ decimal (k + 1) @ lit ''.xml'')"
proof -
  assume k: "k < length (generateXml mappedData g)"
  obtain groups where b: "generateXml mappedData g = batchesOf g groups"
    using generateXml_groups by blast
  with k have "k < length groups" by (simp add: length_batchesOf)
  then show ?thesis
    by (simp add: b batchesOf_nth finalizeBatch_def Let_def)
qed

theorem generateXml_filenames_witness:
  "filename (generateXml
      [[(''attachment'', JStr (lit ''a.pdf''))], [(''attachment'', JStr (lit ''a.pdf''))]]
      (\<lambda>fname. Inr (JStr (replicate 20971520 0x41))) ! 0) = lit ''Output.xml'' \<and>
   filename (generateXml
      [[(''attachment'', JStr (lit ''a.pdf''))], [(''attachment'', JStr (lit ''a.pdf''))]]
      (\<lambda>fname. Inr (JStr (replicate 20971520 0x41))) ! 1) = lit ''Output_Batch_2.xml''"
proof -
  let ?g = "\<lambda>fname::jsstring. (Inr (JStr (replicate 20971520 0x41)) :: js_error + jsval)"
  let ?r = "[(''attachment'', JStr (lit ''a.pdf''))]"
  have a: "attachmentOf ?r ?g = (JStr (lit ''a.pdf''), JStr (replicate 20971520 0x41))"
    by (simp add: attachmentOf_def get_prop_def js_or_def Let_def lit_def)
  have "20971520 \<le> length (generateInstrumentXml ?r ?g)"
    using length_fragment_payload
      [of "JStr (replicate 20971520 0x41)" ?r "JStr (lit ''a.pdf'')"]
    by (simp add: generateInstrumentXml_def a)
  then have big: "20971520 \<le> blob_size (generateInstrumentXml ?r ?g)"
    using blob_size_bounds [of "generateInstrumentXml ?r ?g"] by linarith
  then have "MAX_BATCH_SIZE < running_size (runningOf ?g [?r]) + blob_size (generateInstrumentXml ?r ?g)"
    by (simp add: runningOf_def MAX_BATCH_SIZE_def)
  then have e: "generateXml [?r, ?r] ?g =
      [finalizeBatch (runningOf ?g [?r]) 1, finalizeBatch (runningOf ?g [?r]) 2]"
    by (rule generateXml_two_batches)
  then have l: "length (generateXml [?r, ?r] ?g) = 2" by simp
  have d: "decimal (Suc (Suc 0)) = [0x32]"
    by (simp add: decimal.simps [of "Suc (Suc 0)"] digit_char_def)
  have f0: "filename (generateXml [?r, ?r] ?g ! 0) = lit ''Output.xml''"
    using generateXml_filenames [of 0 "[?r, ?r]" ?g] l by simp
  have "filename (generateXml [?r, ?r] ?g ! 1) =
          lit ''Output_Batch_'' @ decimal (Suc (Suc 0)) @ lit ''.xml''"
    using generateXml_filenames [of 1 "[?r, ?r]" ?g] l by simp
  then have f1: "filename (generateXml [?r, ?r] ?g ! 1) = lit ''Output_Batch_2.xml''"
    by (simp add: d lit_def)
  from f0 f1 show ?thesis by blast
qed

text \<open>
  C9.  The size field of every emitted batch is the byte length of the UTF-8 encoding of
  its content: finalizeBatch computes it from the finalized content, whatever the running
  size of the batch was.
\<close>

theorem generateXml_byte_size:
  "(\<forall>b \<in> set (generateXml mappedData g). byte_size b = length (utf8_encode (content b))) \<and>
   byte_size (finalizeBatch batch n) =
     length (utf8_encode (XML_HEADER @ concat (instruments batch) @ XML_FOOTER))"
proof -
  obtain groups where b: "generateXml mappedData g = batchesOf g groups"
    using generateXml_groups by blast
  have "\<forall>b \<in> set (batchesOf g groups). byte_size b = length (utf8_encode (content b))"
    by (auto simp: batchesOf_def finalizeBatch_def Let_def blob_size_def)
  then show ?thesis
    by (simp add: b) (simp add: finalizeBatch_def Let_def blob_size_def)
qed

theorem generateXml_byte_size_witness:
  "\<exists>b \<in> set (generateXml [[]] (\<lambda>fname. Inr JUndefined)).
      recordCount b = 1 \<and> byte_size b = length (utf8_encode (content b))"
proof -
  let ?g = "\<lambda>fname::jsstring. (Inr JUndefined :: js_error + jsval)"
  let ?b = "finalizeBatch (runningOf ?g [[]]) 1"
  have "blob_size (generateInstrumentXml [] ?g) \<le> 3 * 2185"
    using blob_size_bounds [of "generateInstrumentXml [] ?g"] by (simp add: length_empty_fragment)
  then have "running_size (runningOf ?g [[]]) \<le> MAX_BATCH_SIZE"
    by (simp add: runningOf_def length_envelope MAX_BATCH_SIZE_def)
  then have e: "generateXml [[]] ?g = [?b]"
    by (intro generateXml_single_batch) simp_all
  have c: "recordCount ?b = 1"
    by (simp add: finalizeBatch_def runningOf_def Let_def)
  from generateXml_byte_size [of "[[]]" ?g]
  have "\<forall>b \<in> set (generateXml [[]] ?g). byte_size b = length (utf8_encode (content b))"
    by blast
  then have "byte_size ?b = length (utf8_encode (content ?b))"
    unfolding e by simp
  with c show ?thesis
    unfolding e by simp
qed

lemma size_ok_oversized:
  assumes "size_ok g grp" "r \<in> set grp" "MAX_BATCH_SIZE < blob_size (generateInstrumentXml r g)"
  shows "grp = [r]"
proof (rule ccontr)
  assume ne: "grp \<noteq> [r]"
  from assms(2) obtain xs ys where s: "grp = xs @ r # ys"
    by (auto simp: in_set_conv_decomp)
  with ne have "1 < length grp" by (cases xs; cases ys) auto
  with assms(1) have "running_size (runningOf g grp) \<le> MAX_BATCH_SIZE"
    by (simp add: size_ok_def)
  then have "blob_size (generateInstrumentXml r g) \<le> MAX_BATCH_SIZE"
    by (simp add: runningOf_def s)
  with assms(3) show False by simp
qed

text \<open>
  C1.  Every emitted batch of more than one record has a byte size of at most
  MAX_BATCH_SIZE (29 MiB).  The batches are the input cut into consecutive non-empty
  groups, and a record whose fragment alone exceeds the maximum is the only record of its
  group: it is neither split nor dropped, so only a batch of one record can exceed the
  maximum.
\<close>

theorem generateXml_batch_size_bound:
  "(\<forall>b \<in> set (generateXml mappedData g). 1 < recordCount b \<longrightarrow> byte_size b \<le> MAX_BATCH_SIZE) \<and>
   (\<exists>groups. concat groups = mappedData \<and> [] \<notin> set groups \<and>
      map recordCount (generateXml mappedData g) = map length groups \<and>
      map content (generateXml mappedData g) =
        map (\<lambda>grp. XML_HEADER @ concat (map (\<lambda>r. generateInstrumentXml r g) grp) @ XML_FOOTER)
          groups \<and>
      (\<forall>grp \<in> set groups. \<forall>r \<in> set grp.
         MAX_BATCH_SIZE < blob_size (generateInstrumentXml r g) \<longrightarrow> grp = [r]))"
proof -
  obtain groups where c: "concat groups = mappedData" and n: "[] \<notin> set groups"
    and b: "generateXml mappedData g = batchesOf g groups"
    and o: "\<forall>grp \<in> set groups. size_ok g grp"
    using generateXml_groups by blast
  have rc: "map recordCount (batchesOf g groups) = map length groups"
    by (rule nth_equalityI)
      (simp_all add: length_batchesOf batchesOf_nth finalizeBatch_def runningOf_def Let_def)
  have ct: "map content (batchesOf g groups) =
      map (\<lambda>grp. XML_HEADER @ concat (map (\<lambda>r. generateInstrumentXml r g) grp) @ XML_FOOTER) groups"
    by (rule nth_equalityI)
      (simp_all add: length_batchesOf batchesOf_nth finalizeBatch_def runningOf_def Let_def)
  have bound: "\<forall>b \<in> set (batchesOf g groups). 1 < recordCount b \<longrightarrow> byte_size b \<le> MAX_BATCH_SIZE"
  proof (intro ballI impI)
    fix b assume "b \<in> set (batchesOf g groups)" and big: "1 < recordCount b"
    then obtain k where k: "k < length groups" and bk: "b = batchesOf g groups ! k"
      by (auto simp: in_set_conv_nth length_batchesOf)
    then have e: "b = finalizeBatch (runningOf g (groups ! k)) (Suc k)"
      by (simp add: batchesOf_nth)
    with big have "1 < length (groups ! k)"
      by (simp add: finalizeBatch_def runningOf_def Let_def)
    moreover from k o have "size_ok g (groups ! k)" by simp
    ultimately have "running_size (runningOf g (groups ! k)) \<le> MAX_BATCH_SIZE"
      by (simp add: size_ok_def)
    then show "byte_size b \<le> MAX_BATCH_SIZE"
      by (simp add: e byte_size_finalize_runningOf)
  qed
  have alone: "\<forall>grp \<in> set groups. \<forall>r \<in> set grp.
         MAX_BATCH_SIZE < blob_size (generateInstrumentXml r g) \<longrightarrow> grp = [r]"
    using o size_ok_oversized by blast
  from c n rc ct alone bound show ?thesis
    unfolding b by (intro conjI exI [of _ groups]) simp_all
qed

theorem generateXml_batch_size_bound_witness:
  "\<exists>b \<in> set (generateXml [[], []] (\<lambda>fname. Inr JUndefined)).
      recordCount b = 2 \<and> byte_size b \<le> MAX_BATCH_SIZE"
proof -
  let ?g = "\<lambda>fname::jsstring. (Inr JUndefined :: js_error + jsval)"
  let ?b = "finalizeBatch (runningOf ?g [[], []]) 1"
  have "blob_size (generateInstrumentXml [] ?g) \<le> 3 * 2185"
    using blob_size_bounds [of "generateInstrumentXml [] ?g"] by (simp add: length_empty_fragment)
  then have "running_size (runningOf ?g [[], []]) \<le> MAX_BATCH_SIZE"
    by (simp add: runningOf_def length_envelope MAX_BATCH_SIZE_def)
  then have e: "generateXml [[], []] ?g = [?b]"
    by (intro generateXml_single_batch) simp_all
  have c: "recordCount ?b = 2"
    by (simp add: finalizeBatch_def runningOf_def Let_def)
  have "?b \<in> set (generateXml [[], []] ?g)"
    by (simp add: e)
  with generateXml_batch_size_bound [of "[[], []]" ?g] c have "byte_size ?b \<le> MAX_BATCH_SIZE"
    by simp
  with c show ?thesis
    unfolding e by simp
qed

section \<open>Properties of the validator\<close>

subsection \<open>The report as the concatenation of the rows\<close>

lemma validateAll_loop_rows:
  "validateAll_loop body md (es, ws, c) = Inr (es', ws', c') \<Longrightarrow>
   (\<forall>r \<in> set md. \<exists>re rw. body r = Inr (re, rw)) \<and>
   es' = es @ concat (map (row_errors body) md) \<and>
   ws' = ws @ concat (map (row_warnings body) md) \<and>
   c' = c + length (filter (\<lambda>r. row_errors body r = []) md)"
proof (induction md arbitrary: es ws c)
  case Nil
  then show ?case by simp
next
  case (Cons r md)
  from Cons.prems obtain re rw where b: "body r = Inr (re, rw)"
    by (auto split: sum.splits)
  with Cons.prems have
    "validateAll_loop body md (es @ re, ws @ rw, if length re = 0 then c + 1 else c) =
       Inr (es', ws', c')"
    by simp
  from Cons.IH [OF this] b show ?case
    by (simp add: row_errors_def row_warnings_def)
qed

lemma validateAll_loop_returns:
  "\<forall>r \<in> set md. \<exists>re rw. body r = Inr (re, rw) \<Longrightarrow>
   \<exists>res. validateAll_loop body md (es, ws, c) = Inr res"
proof (induction md arbitrary: es ws c)
  case Nil
  then show ?case by simp
next
  case (Cons r md)
  from Cons.prems obtain re rw where "body r = Inr (re, rw)" by auto
  with Cons show ?case by simp
qed

lemma validateAll_report_rows:
  assumes "validateAll_report body md = Inr rep"
  shows "(\<forall>r \<in> set md. \<exists>re rw. body r = Inr (re, rw)) \<and>
         errors rep = concat (map (row_errors body) md) \<and>
         warnings rep = concat (map (row_warnings body) md) \<and>
         validCount rep = length (filter (\<lambda>r. row_errors body r = []) md) \<and>
         valid rep = (errors rep = []) \<and>
         errorCount rep = length (errors rep) \<and>
         warningCount rep = length (warnings rep)"
proof -
  from assms obtain es ws c where l: "validateAll_loop body md ([], [], 0) = Inr (es, ws, c)"
    and r: "rep = \<lparr>valid = (length es = 0), validCount = c, errorCount = length es,
               warningCount = length ws, errors = es, warnings = ws\<rparr>"
    by (auto simp: validateAll_report_def split: sum.splits)
  from validateAll_loop_rows [OF l] r show ?thesis by simp
qed

lemma validateAll_report_returns:
  assumes "\<forall>r \<in> set md. \<exists>re rw. body r = Inr (re, rw)"
  shows "\<exists>rep. validateAll_report body md = Inr rep"
proof -
  from validateAll_loop_returns [OF assms] obtain res
    where "validateAll_loop body md ([], [], 0) = Inr res" by blast
  then show ?thesis
    by (cases res) (auto simp: validateAll_report_def)
qed

lemma filter_all_length: "length (filter P xs) = length xs \<longleftrightarrow> (\<forall>x \<in> set xs. P x)"
proof
  assume eq: "length (filter P xs) = length xs"
  show "\<forall>x \<in> set xs. P x"
  proof (rule ccontr)
    assume "\<not> (\<forall>x \<in> set xs. P x)"
    then obtain x where "x \<in> set xs" "\<not> P x" by blast
    then have "length (filter P xs) < length xs" by (rule length_filter_less)
    with eq show False by simp
  qed
next
  assume "\<forall>x \<in> set xs. P x"
  then show "length (filter P xs) = length xs" by simp
qed

lemma report_counts:
  assumes "validateAll_report body md = Inr rep"
  shows "(valid rep \<longleftrightarrow> errors rep = []) \<and>
         (errorCount rep = 0 \<longleftrightarrow> validCount rep = length md) \<and>
         validCount rep = length (filter (\<lambda>r. row_errors body r = []) md)"
proof -
  note rows = validateAll_report_rows [OF assms]
  have "errorCount rep = 0 \<longleftrightarrow> (\<forall>r \<in> set md. row_errors body r = [])"
    using rows by simp
  also have "\<dots> \<longleftrightarrow> validCount rep = length md"
    using rows by (simp add: filter_all_length)
  finally show ?thesis using rows by simp
qed

lemma has_issue_append:
  "has_issue (xs @ ys) n f t \<longleftrightarrow> has_issue xs n f t \<or> has_issue ys n f t"
  by (auto simp: has_issue_def)

lemma has_issue_concat:
  "has_issue (concat (map g md)) n f t \<longleftrightarrow> (\<exists>r \<in> set md. has_issue (g r) n f t)"
  by (auto simp: has_issue_def)

lemma count_issues_append:
  "count_issues (xs @ ys) f t = count_issues xs f t + count_issues ys f t"
  by (simp add: count_issues_def)

lemma count_issues_concat:
  "count_issues (concat (map g md)) f t = sum_list (map (\<lambda>r. count_issues (g r) f t) md)"
  by (induction md) (simp_all add: count_issues_append, simp add: count_issues_def)

lemma count_issues_other_type:
  "\<forall>i \<in> set xs. errorType i \<noteq> t \<Longrightarrow> count_issues xs f t = 0"
  by (induction xs) (simp_all add: count_issues_def)

lemma sum_list_indicator:
  "sum_list (map (\<lambda>r. if P r then 1 else 0) md) = length (filter P md)"
  by (induction md) simp_all

subsection \<open>The attachment check\<close>

lemma attachment_is_text_cases:
  "attachment_is_text r \<longleftrightarrow>
     (\<exists>s. get_prop r ''attachment'' = JStr s \<and> s \<noteq> []) \<or> \<not> truthy (get_prop r ''attachment'')"
  by (cases "get_prop r ''attachment''") (auto simp: attachment_is_text_def)

lemma attachmentCheck_named:
  assumes "get_prop r ''attachment'' = JStr s" and "s \<noteq> []"
  shows "attachmentCheck n files r =
     Inr (if attachmentFiles_has files (js_trim s) then []
          else [\<lparr>rowNumber = n, fieldName = ''attachment'', errorType = MISSING_FILE,
                 message = lit ''Attachment file not uploaded: '' @ js_trim s\<rparr>], [])"
  using assms by (simp add: attachmentCheck_def Let_def)

lemma attachmentCheck_unnamed:
  assumes "\<not> truthy (get_prop r ''attachment'')"
  shows "attachmentCheck n files r =
     Inr ([], [\<lparr>rowNumber = n, fieldName = ''attachment'', errorType = MISSING_ATTACHMENT,
                message = lit ''No attachment specified for this record''\<rparr>])"
  using assms by (simp add: attachmentCheck_def Let_def)

lemma attachmentCheck_throws:
  "\<not> attachment_is_text r \<Longrightarrow> attachmentCheck n files r = Inl TypeError"
  by (cases "get_prop r ''attachment''")
    (auto simp: attachment_is_text_def attachmentCheck_def Let_def)

lemma attachmentCheck_returns:
  "attachment_is_text r \<Longrightarrow> \<exists>fe fw. attachmentCheck n files r = Inr (fe, fw)"
  using attachmentCheck_named attachmentCheck_unnamed
  by (auto simp: attachment_is_text_cases)

lemma validateRecord_returns_iff:
  "(\<exists>es ws. validateRecord_strict files r = Inr (es, ws)) \<longleftrightarrow> attachment_is_text r"
  "(\<exists>es ws. validateRecord_lenient files r = Inr (es, ws)) \<longleftrightarrow> attachment_is_text r"
proof -
  let ?n = "get_prop r ''_rowNumber''"
  show "(\<exists>es ws. validateRecord_strict files r = Inr (es, ws)) \<longleftrightarrow> attachment_is_text r"
  proof (cases "attachment_is_text r")
    case True
    with attachmentCheck_returns [of r ?n files] show ?thesis
      by (auto simp: validateRecord_strict_def Let_def)
  next
    case False
    with attachmentCheck_throws [of r ?n files] show ?thesis
      by (simp add: validateRecord_strict_def Let_def)
  qed
  show "(\<exists>es ws. validateRecord_lenient files r = Inr (es, ws)) \<longleftrightarrow> attachment_is_text r"
  proof (cases "attachment_is_text r")
    case True
    with attachmentCheck_returns [of r ?n files] show ?thesis
      by (auto simp: validateRecord_lenient_def Let_def)
  next
    case False
    with attachmentCheck_throws [of r ?n files] show ?thesis
      by (simp add: validateRecord_lenient_def Let_def)
  qed
qed

text \<open>The validator returns a report exactly when no attachment makes \<open>trim\<close> throw.\<close>

lemma validateAll_returns_iff:
  "(\<exists>rep. validateAll_strict md files = Inr rep) \<longleftrightarrow> list_all attachment_is_text md"
  "(\<exists>rep. validateAll_lenient md files = Inr rep) \<longleftrightarrow> list_all attachment_is_text md"
proof -
  show "(\<exists>rep. validateAll_strict md files = Inr rep) \<longleftrightarrow> list_all attachment_is_text md"
    unfolding validateAll_strict_def
    using validateAll_report_rows [of "validateRecord_strict files" md]
      validateAll_report_returns [of md "validateRecord_strict files"]
      validateRecord_returns_iff(1) [of files]
    by (auto simp: list_all_iff)
  show "(\<exists>rep. validateAll_lenient md files = Inr rep) \<longleftrightarrow> list_all attachment_is_text md"
    unfolding validateAll_lenient_def
    using validateAll_report_rows [of "validateRecord_lenient files" md]
      validateAll_report_returns [of md "validateRecord_lenient files"]
      validateRecord_returns_iff(2) [of files]
    by (auto simp: list_all_iff)
qed

subsection \<open>The issues of one record\<close>

lemma rows_strict:
  assumes "attachmentCheck (get_prop r ''_rowNumber'') files r = Inr (fe, fw)"
  shows "row_errors (validateRecord_strict files) r =
           mandatoryErrors MANDATORY_FIELDS_strict displayNames_strict (get_prop r ''_rowNumber'') r @
           dateErrors displayNames_strict (get_prop r ''_rowNumber'') r @ fe @
           partyErrors_strict (get_prop r ''_rowNumber'') r ''transferor'' @
           partyErrors_strict (get_prop r ''_rowNumber'') r ''transferee''"
    and "row_warnings (validateRecord_strict files) r =
           numericWarnings displayNames_strict (get_prop r ''_rowNumber'') r @ fw"
  using assms by (simp_all add: row_errors_def row_warnings_def validateRecord_strict_def Let_def)

lemma rows_lenient:
  assumes "attachmentCheck (get_prop r ''_rowNumber'') files r = Inr (fe, fw)"
  shows "row_errors (validateRecord_lenient files) r =
           mandatoryErrors MANDATORY_FIELDS_lenient displayNames_lenient (get_prop r ''_rowNumber'') r @
           dateErrors displayNames_lenient (get_prop r ''_rowNumber'') r @ fe"
    and "row_warnings (validateRecord_lenient files) r =
           numericWarnings displayNames_lenient (get_prop r ''_rowNumber'') r @ fw @
           partyWarnings_lenient (get_prop r ''_rowNumber'') r ''transferor'' @
           partyWarnings_lenient (get_prop r ''_rowNumber'') r ''transferee''"
  using assms by (simp_all add: row_errors_def row_warnings_def validateRecord_lenient_def Let_def)

text \<open>Both variants return a report whose lists are the rows' lists, in order.\<close>

lemma validateAll_reports:
  assumes "list_all attachment_is_text md"
  shows "\<exists>rs rl.
     validateAll_strict md files = Inr rs \<and> validateAll_lenient md files = Inr rl \<and>
     errors rs = concat (map (row_errors (validateRecord_strict files)) md) \<and>
     warnings rs = concat (map (row_warnings (validateRecord_strict files)) md) \<and>
     errors rl = concat (map (row_errors (validateRecord_lenient files)) md) \<and>
     warnings rl = concat (map (row_warnings (validateRecord_lenient files)) md)"
proof -
  from assms obtain rs rl where s: "validateAll_strict md files = Inr rs"
    and l: "validateAll_lenient md files = Inr rl"
    using validateAll_returns_iff [of md files] by blast
  from s l show ?thesis
    using validateAll_report_rows [of "validateRecord_strict files" md rs]
      validateAll_report_rows [of "validateRecord_lenient files" md rl]
    by (simp add: validateAll_strict_def validateAll_lenient_def)
qed

subsection \<open>Type-dependent party checks\<close>

lemma member_truthy: "member p k \<noteq> JUndefined \<Longrightarrow> truthy p"
  by (cases p) simp_all

lemma partyErrors_strict_company:
  assumes "member (get_prop r party) ''type'' = JStr (lit ''1'') \<or>
           member (get_prop r party) ''type'' = JNum 1"
    and "\<not> truthy (member (get_prop r party) ''rocNo'')"
  shows "has_issue (partyErrors_strict n r party) n (party @ ''.rocNo'') MISSING_FIELD"
proof -
  from assms(1) have "member (get_prop r party) ''type'' \<noteq> JUndefined"
    by auto
  then have "truthy (get_prop r party)"
    by (rule member_truthy)
  with assms show ?thesis
    by (auto simp: partyErrors_strict_def Let_def has_issue_def)
qed

lemma partyWarnings_lenient_company:
  assumes "member (get_prop r party) ''type'' = JStr (lit ''1'') \<or>
           member (get_prop r party) ''type'' = JNum 1"
    and "\<not> truthy (member (get_prop r party) ''rocNo'')"
  shows "has_issue (partyWarnings_lenient n r party) n (party @ ''.rocNo'') MISSING_ID"
proof -
  from assms(1) have "member (get_prop r party) ''type'' \<noteq> JUndefined"
    by auto
  then have "truthy (get_prop r party)"
    by (rule member_truthy)
  with assms show ?thesis
    by (auto simp: partyWarnings_lenient_def Let_def has_issue_def lit_def)
qed

subsection \<open>The error types and row numbers of each check\<close>

lemma mandatoryErrors_issues:
  "\<forall>i \<in> set (mandatoryErrors m d n r). errorType i = MISSING_FIELD \<and> rowNumber i = n"
  by (auto simp: mandatoryErrors_def Let_def)

lemma dateErrors_issues:
  "\<forall>i \<in> set (dateErrors d n r). errorType i = INVALID_DATE \<and> rowNumber i = n"
  by (auto simp: dateErrors_def Let_def)

lemma numericWarnings_issues:
  "\<forall>i \<in> set (numericWarnings d n r). errorType i = INVALID_NUMBER \<and> rowNumber i = n"
  by (auto simp: numericWarnings_def Let_def)

lemma partyErrors_strict_issues:
  "\<forall>i \<in> set (partyErrors_strict n r party). errorType i = MISSING_FIELD \<and> rowNumber i = n"
  by (auto simp: partyErrors_strict_def Let_def)

lemma partyWarnings_lenient_issues:
  "\<forall>i \<in> set (partyWarnings_lenient n r party). errorType i = MISSING_ID \<and> rowNumber i = n"
  by (auto simp: partyWarnings_lenient_def Let_def)

lemma attachmentCheck_issues:
  assumes "attachmentCheck n files r = Inr (fe, fw)"
  shows "(\<forall>i \<in> set fe. errorType i = MISSING_FILE \<and> rowNumber i = n) \<and>
         (\<forall>i \<in> set fw. errorType i = MISSING_ATTACHMENT \<and> rowNumber i = n) \<and>
         (truthy (get_prop r ''attachment'') \<longrightarrow> fw = [])"
  using assms
  by (auto simp: attachmentCheck_def Let_def split: if_splits jsval.splits)

lemma js_trim_whitespace:
  assumes "\<forall>u \<in> set s. is_js_whitespace u"
  shows "js_trim s = []"
proof -
  from assms have d: "dropWhile is_js_whitespace s = []"
    by simp
  show ?thesis
    unfolding js_trim_def d by simp
qed

lemma generateXml_singleton:
  "generateXml [r] g =
     [\<lparr>filename = lit ''Output.xml'',
       content = XML_HEADER @ generateInstrumentXml r g @ XML_FOOTER,
       byte_size = blob_size (XML_HEADER @ generateInstrumentXml r g @ XML_FOOTER),
       recordCount = 1\<rparr>]"
  by (simp add: generateXml_def generateXml_step_def emptyBatch_def finalizeBatch_def Let_def)

lemma attachmentOf_missing:
  assumes "get_prop r ''attachment'' = JStr s" and "s \<noteq> []" and "store (js_trim s) = None"
  shows "attachmentOf r (getAttachmentBase64 store) = (JStr s, JStr [])"
  using assms by (simp add: attachmentOf_def getAttachmentBase64_def js_or_def Let_def)

lemma attachmentOf_unnamed:
  assumes "\<not> truthy (get_prop r ''attachment'')"
  shows "attachmentOf r g = (JStr [], JStr [])"
  using assms by (simp add: attachmentOf_def js_or_def Let_def)

lemma instrumentTemplate_empty_body:
  \<open>\<exists>pre. instrumentTemplate r name (JStr []) =
     pre @ lit ''<attachment name="'' @ escapeXml name @
     lit ''"></attachment>\<newline>    </instrument>''\<close>
proof -
  have \<open>lit ''">'' @ to_string (JStr []) @ lit ''</attachment>\<newline>    </instrument>'' =
        lit ''"></attachment>\<newline>    </instrument>''\<close>
    by (simp add: lit_def)
  moreover have \<open>lit ''        <attachment name="'' = lit ''        '' @ lit ''<attachment name="''\<close>
    by (simp add: lit_def)
  ultimately show ?thesis
    unfolding instrumentTemplate_def
    by (metis append.assoc)
qed

lemma dateErrors_count:
  "field \<in> set dateFields \<Longrightarrow>
   count_issues (dateErrors d n r) field INVALID_DATE =
     (if truthy (get_prop r field) \<and> \<not> DATE_REGEX_test (get_prop r field) then 1 else 0)"
  by (auto simp: dateErrors_def dateFields_def count_issues_def Let_def)

lemma dateErrors_has_issue:
  "field \<in> set dateFields \<Longrightarrow> truthy (get_prop r field) \<Longrightarrow>
   \<not> DATE_REGEX_test (get_prop r field) \<Longrightarrow>
   has_issue (dateErrors d n r) n field INVALID_DATE"
  by (auto simp: dateErrors_def dateFields_def has_issue_def Let_def)

lemma digit_char_is_digit:
  assumes "d < 10"
  shows "is_digit (digit_char d)"
proof -
  from assms have "d = 0 \<or> d = 1 \<or> d = 2 \<or> d = 3 \<or> d = 4 \<or> d = 5 \<or> d = 6 \<or> d = 7 \<or>
      d = 8 \<or> d = 9"
    by arith
  then show ?thesis
    by (auto simp: digit_char_def is_digit_def)
qed

lemma decimal_digits: "\<forall>u \<in> set (decimal n). is_digit u"
proof (induction n rule: decimal.induct)
  case (1 n)
  show ?case
  proof (cases "n < 10")
    case True
    then show ?thesis
      by (simp add: decimal.simps [of n] digit_char_is_digit)
  next
    case False
    with 1 show ?thesis
      by (simp add: decimal.simps [of n] digit_char_is_digit)
  qed
qed

lemma slash_not_digit: "\<not> is_digit 0x2F"
  by (simp add: is_digit_def)

lemma date_regex_digits: "\<forall>u \<in> set s. is_digit u \<Longrightarrow> \<not> date_regex_matches s"
proof
  assume d: "\<forall>u \<in> set s. is_digit u" and m: "date_regex_matches s"
  from m have "2 < length s" "s ! 2 = 0x2F"
    by (simp_all add: date_regex_matches_def)
  then have "0x2F \<in> set s" by (metis nth_mem)
  with d slash_not_digit show False by blast
qed

lemma DATE_REGEX_test_not_text:
  "DATE_REGEX_test JUndefined = False" "DATE_REGEX_test JNull = False"
  "DATE_REGEX_test (JBool b) = False" "DATE_REGEX_test (JNum n) = False"
  "DATE_REGEX_test (JObj kvs) = False"
proof -
  show "DATE_REGEX_test JUndefined = False" "DATE_REGEX_test JNull = False"
    "DATE_REGEX_test (JBool b) = False" "DATE_REGEX_test (JObj kvs) = False"
    by (simp_all add: DATE_REGEX_test_def date_regex_matches_def lit_def)
  have "\<not> date_regex_matches (lit ''-'' @ decimal m)" for m
    by (simp add: date_regex_matches_def lit_def is_digit_def)
  then show "DATE_REGEX_test (JNum n) = False"
    by (simp add: DATE_REGEX_test_def date_regex_digits decimal_digits)
qed

lemma invalid_date_value_iff:
  "(truthy v \<and> \<not> DATE_REGEX_test v) = invalid_date_value v"
  by (cases v) (simp_all add: invalid_date_value_def DATE_REGEX_test_not_text, simp add: DATE_REGEX_test_def)

text \<open>The pattern of DATE_REGEX, written out.\<close>

lemma date_regex_matches_iff:
  "date_regex_matches s \<longleftrightarrow>
     (\<exists>d1 d2 m1 m2 y1 y2 y3 y4.
        s = [d1, d2, 0x2F, m1, m2, 0x2F, y1, y2, y3, y4] \<and>
        is_digit d1 \<and> is_digit d2 \<and> is_digit m1 \<and> is_digit m2 \<and>
        is_digit y1 \<and> is_digit y2 \<and> is_digit y3 \<and> is_digit y4)"
proof
  assume m: "date_regex_matches s"
  then have "length s = 10" by (simp add: date_regex_matches_def)
  then obtain a b c d e f g h i j where s: "s = [a, b, c, d, e, f, g, h, i, j]"
    by (auto simp: eval_nat_numeral length_Suc_conv)
  with m show "\<exists>d1 d2 m1 m2 y1 y2 y3 y4.
        s = [d1, d2, 0x2F, m1, m2, 0x2F, y1, y2, y3, y4] \<and>
        is_digit d1 \<and> is_digit d2 \<and> is_digit m1 \<and> is_digit m2 \<and>
        is_digit y1 \<and> is_digit y2 \<and> is_digit y3 \<and> is_digit y4"
    by (simp add: date_regex_matches_def)
next
  assume "\<exists>d1 d2 m1 m2 y1 y2 y3 y4.
        s = [d1, d2, 0x2F, m1, m2, 0x2F, y1, y2, y3, y4] \<and>
        is_digit d1 \<and> is_digit d2 \<and> is_digit m1 \<and> is_digit m2 \<and>
        is_digit y1 \<and> is_digit y2 \<and> is_digit y3 \<and> is_digit y4"
  then show "date_regex_matches s"
    by (auto simp: date_regex_matches_def)
qed

lemma row_date_counts:
  assumes a: "attachmentCheck (get_prop r ''_rowNumber'') files r = Inr (fe, fw)"
    and f: "field \<in> set dateFields"
  shows "count_issues (row_errors (validateRecord_strict files) r) field INVALID_DATE =
           (if truthy (get_prop r field) \<and> \<not> DATE_REGEX_test (get_prop r field) then 1 else 0)"
    and "count_issues (row_errors (validateRecord_lenient files) r) field INVALID_DATE =
           (if truthy (get_prop r field) \<and> \<not> DATE_REGEX_test (get_prop r field) then 1 else 0)"
    and "count_issues (row_warnings (validateRecord_strict files) r) field INVALID_DATE = 0"
    and "count_issues (row_warnings (validateRecord_lenient files) r) field INVALID_DATE = 0"
proof -
  let ?n = "get_prop r ''_rowNumber''"
  have z: "count_issues (mandatoryErrors m d ?n r) field INVALID_DATE = 0"
    "count_issues fe field INVALID_DATE = 0"
    "count_issues fw field INVALID_DATE = 0"
    "count_issues (partyErrors_strict ?n r p) field INVALID_DATE = 0"
    "count_issues (partyWarnings_lenient ?n r p) field INVALID_DATE = 0"
    "count_issues (numericWarnings d ?n r) field INVALID_DATE = 0" for m d p
    using mandatoryErrors_issues [of m d ?n r] attachmentCheck_issues [OF a]
      partyErrors_strict_issues [of ?n r p] partyWarnings_lenient_issues [of ?n r p]
      numericWarnings_issues [of d ?n r]
    by (auto intro!: count_issues_other_type)
  show "count_issues (row_errors (validateRecord_strict files) r) field INVALID_DATE =
           (if truthy (get_prop r field) \<and> \<not> DATE_REGEX_test (get_prop r field) then 1 else 0)"
    by (simp add: rows_strict [OF a] count_issues_append z dateErrors_count [OF f])
  show "count_issues (row_errors (validateRecord_lenient files) r) field INVALID_DATE =
           (if truthy (get_prop r field) \<and> \<not> DATE_REGEX_test (get_prop r field) then 1 else 0)"
    by (simp add: rows_lenient [OF a] count_issues_append z dateErrors_count [OF f])
  show "count_issues (row_warnings (validateRecord_strict files) r) field INVALID_DATE = 0"
    by (simp add: rows_strict [OF a] count_issues_append z)
  show "count_issues (row_warnings (validateRecord_lenient files) r) field INVALID_DATE = 0"
    by (simp add: rows_lenient [OF a] count_issues_append z)
qed

lemma example_record_lenient_errors:
  "row_errors (validateRecord_lenient None) example_record = []"
  by (simp add: row_errors_def validateRecord_lenient_def attachmentCheck_def example_record_def
      get_prop_def mandatoryErrors_def MANDATORY_FIELDS_lenient_def getNestedValue_def
      dateErrors_def dateFields_def DATE_REGEX_test_def date_regex_matches_def is_digit_def
      lit_def Let_def)

lemma example_record_strict_errors:
  "row_errors (validateRecord_strict None) example_record \<noteq> []"
  by (simp add: row_errors_def validateRecord_strict_def attachmentCheck_def example_record_def
      get_prop_def mandatoryErrors_def MANDATORY_FIELDS_strict_def getNestedValue_def Let_def)

lemma example_record_lenient_warnings:
  "row_warnings (validateRecord_lenient None) example_record \<noteq> []"
  by (simp add: row_warnings_def validateRecord_lenient_def attachmentCheck_def example_record_def
      get_prop_def Let_def)

subsection \<open>Main properties of validateAll\<close>

text \<open>
  C3.  In the report either variant returns, \<open>valid\<close> holds exactly when the list of
  errors is empty, and \<open>errorCount\<close> is 0 exactly when \<open>validCount\<close> is the number of input
  records; \<open>validCount\<close> counts the records whose own errors are none, whatever their
  warnings.
\<close>

theorem validateAll_report_counts:
  "(validateAll_strict mappedData files = Inr rep \<longrightarrow>
      (valid rep \<longleftrightarrow> errors rep = []) \<and>
      (errorCount rep = 0 \<longleftrightarrow> validCount rep = length mappedData) \<and>
      validCount rep =
        length (filter (\<lambda>r. row_errors (validateRecord_strict files) r = []) mappedData)) \<and>
   (validateAll_lenient mappedData files = Inr rep \<longrightarrow>
      (valid rep \<longleftrightarrow> errors rep = []) \<and>
      (errorCount rep = 0 \<longleftrightarrow> validCount rep = length mappedData) \<and>
      validCount rep =
        length (filter (\<lambda>r. row_errors (validateRecord_lenient files) r = []) mappedData))"
  using report_counts [of "validateRecord_strict files" mappedData rep]
    report_counts [of "validateRecord_lenient files" mappedData rep]
  by (simp add: validateAll_strict_def validateAll_lenient_def)

theorem validateAll_report_counts_witness:
  "\<exists>rs rl.
     validateAll_strict [example_record] None = Inr rs \<and>
     validateAll_lenient [example_record] None = Inr rl \<and>
     \<not> valid rs \<and> errorCount rs \<noteq> 0 \<and> validCount rs = 0 \<and>
     valid rl \<and> errorCount rl = 0 \<and> validCount rl = 1 \<and> warnings rl \<noteq> []"
proof -
  have t: "list_all attachment_is_text [example_record]"
    by (simp add: attachment_is_text_def example_record_def get_prop_def)
  obtain rs rl where r: "validateAll_strict [example_record] None = Inr rs"
      "validateAll_lenient [example_record] None = Inr rl"
      "errors rs = concat (map (row_errors (validateRecord_strict None)) [example_record])"
      "errors rl = concat (map (row_errors (validateRecord_lenient None)) [example_record])"
      "warnings rl = concat (map (row_warnings (validateRecord_lenient None)) [example_record])"
    using validateAll_reports [OF t, of None] by blast
  from validateAll_report_counts [of "[example_record]" None rs] r(1,3)
  have "\<not> valid rs \<and> errorCount rs \<noteq> 0 \<and> validCount rs = 0"
    by (simp add: example_record_strict_errors)
  moreover
  from validateAll_report_counts [of "[example_record]" None rl] r(2,4)
  have "valid rl \<and> errorCount rl = 0 \<and> validCount rl = 1"
    by (simp add: example_record_lenient_errors)
  moreover have "warnings rl \<noteq> []"
    by (simp add: r(5) example_record_lenient_warnings)
  ultimately show ?thesis
    using r(1,2) by blast
qed

text \<open>
  C4.  In both variants of the validator, for a record of the input: when its attachment
  is a non-empty string whose trimmed name the attachment map does not have, the report
  has a MISSING_FILE issue for the record's row among the errors; when its attachment is
  absent or empty (falsy), the report has a MISSING_ATTACHMENT issue for the row among the
  warnings, and no error of the report is a MISSING_ATTACHMENT.  The serializer renders
  such a record with an empty attachment body (the application's resolver returns '' for a
  missing file), and a sequence of this record alone gives one batch holding the fragment.
\<close>

theorem validateAll_attachment_presence:
  assumes "list_all attachment_is_text mappedData" and "record \<in> set mappedData"
  shows \<open>\<exists>rs rl.
     validateAll_strict mappedData files = Inr rs \<and>
     validateAll_lenient mappedData files = Inr rl \<and>
     (\<forall>s. get_prop record ''attachment'' = JStr s \<and> s \<noteq> [] \<and>
          \<not> attachmentFiles_has files (js_trim s) \<longrightarrow>
          has_issue (errors rs) (get_prop record ''_rowNumber'') ''attachment'' MISSING_FILE \<and>
          has_issue (errors rl) (get_prop record ''_rowNumber'') ''attachment'' MISSING_FILE) \<and>
     (\<not> truthy (get_prop record ''attachment'') \<longrightarrow>
          has_issue (warnings rs) (get_prop record ''_rowNumber'') ''attachment''
            MISSING_ATTACHMENT \<and>
          has_issue (warnings rl) (get_prop record ''_rowNumber'') ''attachment''
            MISSING_ATTACHMENT) \<and>
     (\<forall>i \<in> set (errors rs) \<union> set (errors rl). errorType i \<noteq> MISSING_ATTACHMENT) \<and>
     (\<forall>store s. get_prop record ''attachment'' = JStr s \<and> s \<noteq> [] \<and> store (js_trim s) = None \<longrightarrow>
          generateInstrumentXml record (getAttachmentBase64 store) =
            instrumentTemplate record (JStr s) (JStr [])) \<and>
     (\<forall>g. \<not> truthy (get_prop record ''attachment'') \<longrightarrow>
          generateInstrumentXml record g = instrumentTemplate record (JStr []) (JStr [])) \<and>
     (\<forall>name. \<exists>pre. instrumentTemplate record name (JStr []) =
          pre @ lit ''<attachment name="'' @ escapeXml name @
          lit ''"></attachment>\<newline>    </instrument>'') \<and>
     (\<forall>g. map recordCount (generateXml [record] g) = [1] \<and>
          map content (generateXml [record] g) =
            [XML_HEADER @ generateInstrumentXml record g @ XML_FOOTER])\<close>
proof -
  let ?n = "get_prop record ''_rowNumber''"
  obtain rs rl where r: "validateAll_strict mappedData files = Inr rs"
      "validateAll_lenient mappedData files = Inr rl"
      "errors rs = concat (map (row_errors (validateRecord_strict files)) mappedData)"
      "warnings rs = concat (map (row_warnings (validateRecord_strict files)) mappedData)"
      "errors rl = concat (map (row_errors (validateRecord_lenient files)) mappedData)"
      "warnings rl = concat (map (row_warnings (validateRecord_lenient files)) mappedData)"
    using validateAll_reports [OF assms(1), of files] by blast
  have missing: "has_issue (errors rs) ?n ''attachment'' MISSING_FILE \<and>
                 has_issue (errors rl) ?n ''attachment'' MISSING_FILE"
    if s: "get_prop record ''attachment'' = JStr s" "s \<noteq> []"
      and h: "\<not> attachmentFiles_has files (js_trim s)" for s
  proof -
    let ?issue = "\<lparr>rowNumber = ?n, fieldName = ''attachment'', errorType = MISSING_FILE,
                    message = lit ''Attachment file not uploaded: '' @ js_trim s\<rparr>"
    have a: "attachmentCheck ?n files record = Inr ([?issue], [])"
      using attachmentCheck_named [OF s, of ?n files] h by simp
    have "has_issue (row_errors (validateRecord_strict files) record) ?n ''attachment'' MISSING_FILE"
      by (simp add: rows_strict [OF a] has_issue_append) (simp add: has_issue_def)
    moreover
    have "has_issue (row_errors (validateRecord_lenient files) record) ?n ''attachment'' MISSING_FILE"
      by (simp add: rows_lenient [OF a] has_issue_append) (simp add: has_issue_def)
    ultimately show ?thesis
      using assms(2) by (auto simp: r has_issue_concat)
  qed
  have unnamed: "has_issue (warnings rs) ?n ''attachment'' MISSING_ATTACHMENT \<and>
                 has_issue (warnings rl) ?n ''attachment'' MISSING_ATTACHMENT"
    if f: "\<not> truthy (get_prop record ''attachment'')"
  proof -
    let ?issue = "\<lparr>rowNumber = ?n, fieldName = ''attachment'', errorType = MISSING_ATTACHMENT,
                    message = lit ''No attachment specified for this record''\<rparr>"
    have a: "attachmentCheck ?n files record = Inr ([], [?issue])"
      using attachmentCheck_unnamed [OF f, of ?n files] by simp
    have "has_issue (row_warnings (validateRecord_strict files) record) ?n ''attachment''
            MISSING_ATTACHMENT"
      by (simp add: rows_strict [OF a] has_issue_append) (simp add: has_issue_def)
    moreover
    have "has_issue (row_warnings (validateRecord_lenient files) record) ?n ''attachment''
            MISSING_ATTACHMENT"
      by (simp add: rows_lenient [OF a] has_issue_append) (simp add: has_issue_def)
    ultimately show ?thesis
      using assms(2) by (auto simp: r has_issue_concat)
  qed
  have types: "\<forall>i \<in> set (row_errors (validateRecord_strict files) x) \<union>
                      set (row_errors (validateRecord_lenient files) x).
                 errorType i \<noteq> MISSING_ATTACHMENT"
    if x: "x \<in> set mappedData" for x
  proof -
    let ?m = "get_prop x ''_rowNumber''"
    from assms(1) x have "attachment_is_text x" by (simp add: list_all_iff)
    then obtain fe fw where b: "attachmentCheck ?m files x = Inr (fe, fw)"
      using attachmentCheck_returns by blast
    from attachmentCheck_issues [OF b]
      mandatoryErrors_issues [of MANDATORY_FIELDS_strict displayNames_strict ?m x]
      mandatoryErrors_issues [of MANDATORY_FIELDS_lenient displayNames_lenient ?m x]
      dateErrors_issues [of displayNames_strict ?m x] dateErrors_issues [of displayNames_lenient ?m x]
      partyErrors_strict_issues [of ?m x]
    show ?thesis
      by (auto simp: rows_strict [OF b] rows_lenient [OF b])
  qed
  then have classified: "\<forall>i \<in> set (errors rs) \<union> set (errors rl). errorType i \<noteq> MISSING_ATTACHMENT"
    by (auto simp: r)
  have xml1: "generateInstrumentXml record (getAttachmentBase64 store) =
                instrumentTemplate record (JStr s) (JStr [])"
    if "get_prop record ''attachment'' = JStr s" "s \<noteq> []" "store (js_trim s) = None" for store s
    using that by (simp add: generateInstrumentXml_def attachmentOf_missing)
  have xml2: "generateInstrumentXml record g = instrumentTemplate record (JStr []) (JStr [])"
    if "\<not> truthy (get_prop record ''attachment'')" for g
    using that by (simp add: generateInstrumentXml_def attachmentOf_unnamed)
  from r(1,2) missing unnamed classified xml1 xml2 instrumentTemplate_empty_body [of "record"]
  show ?thesis
    by (intro exI [of _ rs] exI [of _ rl] conjI) (simp_all add: generateXml_singleton)
qed

theorem validateAll_attachment_presence_witness:
  \<open>\<exists>rs rl.
     validateAll_strict
       [[(''_rowNumber'', JNum 2), (''attachment'', JStr (lit ''missing.pdf''))],
        [(''_rowNumber'', JNum 3)]] (Some Map.empty) = Inr rs \<and>
     validateAll_lenient
       [[(''_rowNumber'', JNum 2), (''attachment'', JStr (lit ''missing.pdf''))],
        [(''_rowNumber'', JNum 3)]] (Some Map.empty) = Inr rl \<and>
     has_issue (errors rs) (JNum 2) ''attachment'' MISSING_FILE \<and>
     has_issue (errors rl) (JNum 2) ''attachment'' MISSING_FILE \<and>
     has_issue (warnings rs) (JNum 3) ''attachment'' MISSING_ATTACHMENT \<and>
     has_issue (warnings rl) (JNum 3) ''attachment'' MISSING_ATTACHMENT \<and>
     generateInstrumentXml [(''_rowNumber'', JNum 2), (''attachment'', JStr (lit ''missing.pdf''))]
       (getAttachmentBase64 Map.empty) =
       instrumentTemplate [(''_rowNumber'', JNum 2), (''attachment'', JStr (lit ''missing.pdf''))]
         (JStr (lit ''missing.pdf'')) (JStr [])\<close>
proof -
  let ?r1 = "[(''_rowNumber'', JNum 2), (''attachment'', JStr (lit ''missing.pdf''))]"
  let ?r2 = "[(''_rowNumber'', JNum 3 :: jsval)]"
  have t: "list_all attachment_is_text [?r1, ?r2]"
    by (simp add: attachment_is_text_def get_prop_def)
  have n: "lit ''missing.pdf'' \<noteq> []"
    by (simp add: lit_def)
  from validateAll_attachment_presence [OF t, of ?r1 "Some Map.empty"]
  obtain rs rl where 1: "validateAll_strict [?r1, ?r2] (Some Map.empty) = Inr rs"
      "validateAll_lenient [?r1, ?r2] (Some Map.empty) = Inr rl"
      "has_issue (errors rs) (JNum 2) ''attachment'' MISSING_FILE"
      "has_issue (errors rl) (JNum 2) ''attachment'' MISSING_FILE"
      "generateInstrumentXml ?r1 (getAttachmentBase64 Map.empty) =
         instrumentTemplate ?r1 (JStr (lit ''missing.pdf'')) (JStr [])"
    using n by (auto simp: get_prop_def attachmentFiles_has_def)
  from validateAll_attachment_presence [OF t, of ?r2 "Some Map.empty"] 1(1,2)
  have 2: "has_issue (warnings rs) (JNum 3) ''attachment'' MISSING_ATTACHMENT"
      "has_issue (warnings rl) (JNum 3) ''attachment'' MISSING_ATTACHMENT"
    by (auto simp: get_prop_def)
  from 1 2 show ?thesis by blast
qed

text \<open>
  C5.  A record whose transferor has type 1 (the string '1' or the number 1) and no
  rocNo (absent, empty or otherwise falsy): the report has an issue for
  \<open>transferor.rocNo\<close> under the record's row number, a MISSING_FIELD error in the first
  variant of the module and a MISSING_ID warning in the second.  The report exists when
  every attachment is a string or falsy.
\<close>

theorem validateAll_company_without_roc:
  assumes "list_all attachment_is_text mappedData" and "record \<in> set mappedData"
    and "member (get_prop record ''transferor'') ''type'' = JStr (lit ''1'') \<or>
         member (get_prop record ''transferor'') ''type'' = JNum 1"
    and "\<not> truthy (member (get_prop record ''transferor'') ''rocNo'')"
  shows "\<exists>rs rl.
     validateAll_strict mappedData files = Inr rs \<and>
     validateAll_lenient mappedData files = Inr rl \<and>
     has_issue (errors rs) (get_prop record ''_rowNumber'') ''transferor.rocNo'' MISSING_FIELD \<and>
     has_issue (warnings rl) (get_prop record ''_rowNumber'') ''transferor.rocNo'' MISSING_ID"
proof -
  let ?n = "get_prop record ''_rowNumber''"
  from assms(1,2) have "attachment_is_text record" by (simp add: list_all_iff)
  then obtain fe fw where a: "attachmentCheck ?n files record = Inr (fe, fw)"
    using attachmentCheck_returns by blast
  have "has_issue (row_errors (validateRecord_strict files) record) ?n ''transferor.rocNo'' MISSING_FIELD"
    using partyErrors_strict_company [OF assms(3,4), of ?n]
    by (simp add: rows_strict [OF a] has_issue_append)
  moreover
  have "has_issue (row_warnings (validateRecord_lenient files) record) ?n ''transferor.rocNo'' MISSING_ID"
    using partyWarnings_lenient_company [OF assms(3,4), of ?n]
    by (simp add: rows_lenient [OF a] has_issue_append)
  ultimately show ?thesis
    using validateAll_reports [OF assms(1), of files] assms(2)
    by (auto simp: has_issue_concat)
qed

theorem validateAll_company_without_roc_witness:
  "\<exists>rs rl.
     validateAll_strict
       [[(''_rowNumber'', JNum 2), (''transferor'', JObj [(''type'', JStr (lit ''1''))])]] None = Inr rs \<and>
     validateAll_lenient
       [[(''_rowNumber'', JNum 2), (''transferor'', JObj [(''type'', JStr (lit ''1''))])]] None = Inr rl \<and>
     has_issue (errors rs) (JNum 2) ''transferor.rocNo'' MISSING_FIELD \<and>
     has_issue (warnings rl) (JNum 2) ''transferor.rocNo'' MISSING_ID"
  using validateAll_company_without_roc
    [of "[[(''_rowNumber'', JNum 2), (''transferor'', JObj [(''type'', JStr (lit ''1''))])]]"
        "[(''_rowNumber'', JNum 2), (''transferor'', JObj [(''type'', JStr (lit ''1''))])]" None]
  by (simp add: attachment_is_text_def get_prop_def)

text \<open>
  C6.  For each of the two date fields, in both variants: the INVALID_DATE issues of the
  field among the errors of the report are as many as the records whose value of the
  field is invalid, one for each such record and under its row number, and no warning is
  an INVALID_DATE.  A string value is invalid exactly when it is non-empty and does not
  match \<open>dd/dd/dddd\<close> as a whole: a matching value adds no issue, any other non-empty string
  adds exactly one, an absent or empty value adds none.
\<close>

theorem validateAll_invalid_date:
  assumes "list_all attachment_is_text mappedData" and "field \<in> set dateFields"
  shows "\<exists>rs rl.
     validateAll_strict mappedData files = Inr rs \<and>
     validateAll_lenient mappedData files = Inr rl \<and>
     count_issues (errors rs) field INVALID_DATE =
       length (filter (\<lambda>r. invalid_date_value (get_prop r field)) mappedData) \<and>
     count_issues (errors rl) field INVALID_DATE =
       length (filter (\<lambda>r. invalid_date_value (get_prop r field)) mappedData) \<and>
     count_issues (warnings rs) field INVALID_DATE = 0 \<and>
     count_issues (warnings rl) field INVALID_DATE = 0 \<and>
     (\<forall>r \<in> set mappedData. invalid_date_value (get_prop r field) \<longrightarrow>
        has_issue (errors rs) (get_prop r ''_rowNumber'') field INVALID_DATE \<and>
        has_issue (errors rl) (get_prop r ''_rowNumber'') field INVALID_DATE)"
proof -
  obtain rs rl where r: "validateAll_strict mappedData files = Inr rs"
      "validateAll_lenient mappedData files = Inr rl"
      "errors rs = concat (map (row_errors (validateRecord_strict files)) mappedData)"
      "warnings rs = concat (map (row_warnings (validateRecord_strict files)) mappedData)"
      "errors rl = concat (map (row_errors (validateRecord_lenient files)) mappedData)"
      "warnings rl = concat (map (row_warnings (validateRecord_lenient files)) mappedData)"
    using validateAll_reports [OF assms(1), of files] by blast
  have row: "count_issues (row_errors (validateRecord_strict files) x) field INVALID_DATE =
               (if invalid_date_value (get_prop x field) then 1 else 0) \<and>
             count_issues (row_errors (validateRecord_lenient files) x) field INVALID_DATE =
               (if invalid_date_value (get_prop x field) then 1 else 0) \<and>
             count_issues (row_warnings (validateRecord_strict files) x) field INVALID_DATE = 0 \<and>
             count_issues (row_warnings (validateRecord_lenient files) x) field INVALID_DATE = 0 \<and>
             (invalid_date_value (get_prop x field) \<longrightarrow>
                has_issue (row_errors (validateRecord_strict files) x)
                  (get_prop x ''_rowNumber'') field INVALID_DATE \<and>
                has_issue (row_errors (validateRecord_lenient files) x)
                  (get_prop x ''_rowNumber'') field INVALID_DATE)"
    if x: "x \<in> set mappedData" for x
  proof -
    let ?m = "get_prop x ''_rowNumber''"
    from assms(1) x have "attachment_is_text x" by (simp add: list_all_iff)
    then obtain fe fw where b: "attachmentCheck ?m files x = Inr (fe, fw)"
      using attachmentCheck_returns by blast
    have u: "(truthy (get_prop x field) \<and> \<not> DATE_REGEX_test (get_prop x field)) =
        invalid_date_value (get_prop x field)"
      by (rule invalid_date_value_iff)
    have "has_issue (row_errors (validateRecord_strict files) x) ?m field INVALID_DATE \<and>
          has_issue (row_errors (validateRecord_lenient files) x) ?m field INVALID_DATE"
      if "invalid_date_value (get_prop x field)"
      using that u dateErrors_has_issue [OF assms(2), of x _ ?m]
      by (simp add: rows_strict [OF b] rows_lenient [OF b] has_issue_append)
    with row_date_counts [OF b assms(2)] u show ?thesis by simp
  qed
  have sum: "sum_list (map (\<lambda>x. if invalid_date_value (get_prop x field) then 1 else 0) mappedData) =
      length (filter (\<lambda>r. invalid_date_value (get_prop r field)) mappedData)"
    by (rule sum_list_indicator)
  have cong: "sum_list (map f mappedData) = sum_list (map g mappedData)"
    if "\<And>x. x \<in> set mappedData \<Longrightarrow> f x = g x" for f g :: "jsobj \<Rightarrow> nat"
    using that by (simp cong: map_cong)
  have 1: "count_issues (errors rs) field INVALID_DATE =
       length (filter (\<lambda>r. invalid_date_value (get_prop r field)) mappedData)"
    unfolding r count_issues_concat sum [symmetric] using row by (intro cong) simp
  have 2: "count_issues (errors rl) field INVALID_DATE =
       length (filter (\<lambda>r. invalid_date_value (get_prop r field)) mappedData)"
    unfolding r count_issues_concat sum [symmetric] using row by (intro cong) simp
  have 3: "count_issues (warnings rs) field INVALID_DATE = 0"
    unfolding r count_issues_concat using row by simp
  have 4: "count_issues (warnings rl) field INVALID_DATE = 0"
    unfolding r count_issues_concat using row by simp
  have 5: "\<forall>x \<in> set mappedData. invalid_date_value (get_prop x field) \<longrightarrow>
        has_issue (errors rs) (get_prop x ''_rowNumber'') field INVALID_DATE \<and>
        has_issue (errors rl) (get_prop x ''_rowNumber'') field INVALID_DATE"
    using row by (auto simp: r has_issue_concat)
  from r(1,2) 1 2 3 4 5 show ?thesis by blast
qed

theorem validateAll_invalid_date_witness:
  "\<exists>rs rl.
     validateAll_strict
       [[(''_rowNumber'', JNum 2), (''instrumentDate'', JStr (lit ''15/12/2024''))],
        [(''_rowNumber'', JNum 3), (''instrumentDate'', JStr (lit ''2024-12-15''))],
        [(''_rowNumber'', JNum 4)]] None = Inr rs \<and>
     validateAll_lenient
       [[(''_rowNumber'', JNum 2), (''instrumentDate'', JStr (lit ''15/12/2024''))],
        [(''_rowNumber'', JNum 3), (''instrumentDate'', JStr (lit ''2024-12-15''))],
        [(''_rowNumber'', JNum 4)]] None = Inr rl \<and>
     count_issues (errors rs) ''instrumentDate'' INVALID_DATE = 1 \<and>
     count_issues (errors rl) ''instrumentDate'' INVALID_DATE = 1 \<and>
     has_issue (errors rs) (JNum 3) ''instrumentDate'' INVALID_DATE \<and>
     has_issue (errors rl) (JNum 3) ''instrumentDate'' INVALID_DATE"
proof -
  let ?r1 = "[(''_rowNumber'', JNum 2), (''instrumentDate'', JStr (lit ''15/12/2024''))]"
  let ?r2 = "[(''_rowNumber'', JNum 3), (''instrumentDate'', JStr (lit ''2024-12-15''))]"
  let ?r3 = "[(''_rowNumber'', JNum 4 :: jsval)]"
  have t: "list_all attachment_is_text [?r1, ?r2, ?r3]"
    by (simp add: attachment_is_text_def get_prop_def)
  have f: "''instrumentDate'' \<in> set dateFields"
    by (simp add: dateFields_def)
  have u: "\<not> invalid_date_value (get_prop ?r1 ''instrumentDate'')"
      "invalid_date_value (get_prop ?r2 ''instrumentDate'')"
      "\<not> invalid_date_value (get_prop ?r3 ''instrumentDate'')"
    by (simp_all add: invalid_date_value_def get_prop_def date_regex_matches_def is_digit_def lit_def)
  from validateAll_invalid_date [OF t f, of None] u show ?thesis
    by (auto simp: get_prop_def)
qed

text \<open>
  C10.  A record whose attachment is a non-empty string of whitespace only, checked
  against an attachment map without the key '' (or against no map at all): the report has
  a MISSING_FILE error for the record's row, in both variants, and, when no other record
  carries the row number, no MISSING_ATTACHMENT warning for it.
\<close>

theorem validateAll_whitespace_attachment:
  assumes "list_all attachment_is_text mappedData" and "record \<in> set mappedData"
    and "get_prop record ''attachment'' = JStr s" and "s \<noteq> []"
    and "\<forall>u \<in> set s. is_js_whitespace u"
    and "\<not> attachmentFiles_has files []"
  shows "\<exists>rs rl.
     validateAll_strict mappedData files = Inr rs \<and>
     validateAll_lenient mappedData files = Inr rl \<and>
     has_issue (errors rs) (get_prop record ''_rowNumber'') ''attachment'' MISSING_FILE \<and>
     has_issue (errors rl) (get_prop record ''_rowNumber'') ''attachment'' MISSING_FILE \<and>
     ((\<forall>r \<in> set mappedData. get_prop r ''_rowNumber'' = get_prop record ''_rowNumber'' \<longrightarrow> r = record)
        \<longrightarrow> \<not> has_issue (warnings rs) (get_prop record ''_rowNumber'') ''attachment'' MISSING_ATTACHMENT
          \<and> \<not> has_issue (warnings rl) (get_prop record ''_rowNumber'') ''attachment'' MISSING_ATTACHMENT)"
proof -
  let ?n = "get_prop record ''_rowNumber''"
  let ?issue = "\<lparr>rowNumber = ?n, fieldName = ''attachment'', errorType = MISSING_FILE,
                  message = lit ''Attachment file not uploaded: '' @ js_trim s\<rparr>"
  have a: "attachmentCheck ?n files record = Inr ([?issue], [])"
    using attachmentCheck_named [OF assms(3,4), of ?n files] assms(6)
    by (simp add: js_trim_whitespace [OF assms(5)])
  have es: "has_issue (row_errors (validateRecord_strict files) record) ?n ''attachment'' MISSING_FILE"
    by (simp add: rows_strict [OF a] has_issue_append) (simp add: has_issue_def)
  have el: "has_issue (row_errors (validateRecord_lenient files) record) ?n ''attachment'' MISSING_FILE"
    by (simp add: rows_lenient [OF a] has_issue_append) (simp add: has_issue_def)
  have ws: "\<not> has_issue (row_warnings (validateRecord_strict files) record) ?n ''attachment'' MISSING_ATTACHMENT"
    using numericWarnings_issues [of displayNames_strict ?n "record"]
    by (auto simp: rows_strict [OF a] has_issue_def)
  have wl: "\<not> has_issue (row_warnings (validateRecord_lenient files) record) ?n ''attachment'' MISSING_ATTACHMENT"
    using numericWarnings_issues [of displayNames_lenient ?n "record"]
      partyWarnings_lenient_issues [of ?n "record"]
    by (auto simp: rows_lenient [OF a] has_issue_def)
  have other: "\<not> has_issue (row_warnings (validateRecord_strict files) r) ?n f t \<and>
               \<not> has_issue (row_warnings (validateRecord_lenient files) r) ?n f t"
    if r: "r \<in> set mappedData" and d: "get_prop r ''_rowNumber'' \<noteq> ?n" for r f t
  proof -
    let ?m = "get_prop r ''_rowNumber''"
    from assms(1) r have "attachment_is_text r" by (simp add: list_all_iff)
    then obtain fe fw where b: "attachmentCheck ?m files r = Inr (fe, fw)"
      using attachmentCheck_returns by blast
    from attachmentCheck_issues [OF b] numericWarnings_issues [of displayNames_strict ?m r]
      numericWarnings_issues [of displayNames_lenient ?m r]
      partyWarnings_lenient_issues [of ?m r] d
    show ?thesis
      by (auto simp: rows_strict [OF b] rows_lenient [OF b] has_issue_def)
  qed
  obtain rs rl where r: "validateAll_strict mappedData files = Inr rs"
      "validateAll_lenient mappedData files = Inr rl"
      "errors rs = concat (map (row_errors (validateRecord_strict files)) mappedData)"
      "warnings rs = concat (map (row_warnings (validateRecord_strict files)) mappedData)"
      "errors rl = concat (map (row_errors (validateRecord_lenient files)) mappedData)"
      "warnings rl = concat (map (row_warnings (validateRecord_lenient files)) mappedData)"
    using validateAll_reports [OF assms(1), of files] by blast
  have "has_issue (errors rs) ?n ''attachment'' MISSING_FILE"
    using es assms(2) by (auto simp: r has_issue_concat)
  moreover have "has_issue (errors rl) ?n ''attachment'' MISSING_FILE"
    using el assms(2) by (auto simp: r has_issue_concat)
  moreover have "\<not> has_issue (warnings rs) ?n ''attachment'' MISSING_ATTACHMENT"
    if "\<forall>r \<in> set mappedData. get_prop r ''_rowNumber'' = ?n \<longrightarrow> r = record"
    using that ws other by (auto simp: r has_issue_concat)
  moreover have "\<not> has_issue (warnings rl) ?n ''attachment'' MISSING_ATTACHMENT"
    if "\<forall>r \<in> set mappedData. get_prop r ''_rowNumber'' = ?n \<longrightarrow> r = record"
    using that wl other by (auto simp: r has_issue_concat)
  ultimately show ?thesis
    using r(1,2) by blast
qed

theorem validateAll_whitespace_attachment_witness:
  "\<exists>rs rl.
     validateAll_strict
       [[(''_rowNumber'', JNum 2), (''attachment'', JStr (lit ''   ''))]] (Some Map.empty) = Inr rs \<and>
     validateAll_lenient
       [[(''_rowNumber'', JNum 2), (''attachment'', JStr (lit ''   ''))]] (Some Map.empty) = Inr rl \<and>
     has_issue (errors rs) (JNum 2) ''attachment'' MISSING_FILE \<and>
     has_issue (errors rl) (JNum 2) ''attachment'' MISSING_FILE \<and>
     \<not> has_issue (warnings rs) (JNum 2) ''attachment'' MISSING_ATTACHMENT \<and>
     \<not> has_issue (warnings rl) (JNum 2) ''attachment'' MISSING_ATTACHMENT"
  using validateAll_whitespace_attachment
    [of "[[(''_rowNumber'', JNum 2), (''attachment'', JStr (lit ''   ''))]]"
        "[(''_rowNumber'', JNum 2), (''attachment'', JStr (lit ''   ''))]" "lit ''   ''"
        "Some Map.empty"]
  by (simp add: attachment_is_text_def get_prop_def attachmentFiles_has_def)
    (simp add: lit_def is_js_whitespace_def)

end
